theory Spec2Isabelle
  imports Main "HOL-Library.Word"
begin

section \<open>TreasuryVault: data model\<close>

text \<open>
  The contract \<^verbatim>\<open>TreasuryVault\<close> (Solidity 0.8.20) is embedded as pure functions on a
  record of its storage. A call that reverts is \<open>Inl\<close> of the error, and the storage is
  then the one before the call (\<open>step\<close> below); a call that returns is \<open>Inr\<close> of the new
  storage. Solidity mappings are total (an absent key reads as zero), so they are HOL
  functions. \<^verbatim>\<open>uint256\<close> is \<open>256 word\<close>: arithmetic inside \<^verbatim>\<open>unchecked\<close> wraps, all other
  arithmetic reverts with a panic when it overflows. Besides its storage the record holds
  the native currency of the contract's account, which decides whether a call that
  carries value can be made at all.
\<close>

type_synonym address = "160 word"
type_synonym uint256 = "256 word"
type_synonym bytes32 = "256 word"
type_synonym bytes = "8 word list"

text \<open>The role identifiers are \<^verbatim>\<open>keccak256\<close> constants of the source; only their being
  distinct matters. \<open>DEFAULT_ADMIN_ROLE\<close> is the one of OpenZeppelin's AccessControl.\<close>

datatype role = DEFAULT_ADMIN_ROLE | OWNER_ROLE | EXECUTOR_ROLE | AI_AGENT_ROLE

text \<open>The custom errors of the contract, followed by the errors of the inherited
  OpenZeppelin contracts (AccessControl, Pausable, ReentrancyGuard) and the two compiler
  panics (0x11 arithmetic overflow, 0x12 division by zero). \<open>TokenCallFailed\<close> is the
  revert of a failed \<^verbatim>\<open>safeTransfer\<close> or \<^verbatim>\<open>safeTransferFrom\<close>: SafeERC20 raises the token's
  own revert data again when the token reverts, and an error of its own when the token
  returns false or has no code; the model keeps one error for all of these.\<close>

datatype error =
    InsufficientApprovals
  | ActionAlreadyExecuted
  | TimeLockNotExpired
  | UnauthorizedStrategy
  | InsufficientBalance
  | InvalidThreshold
  | InvalidOwnerCount
  | AlreadyApproved
  | ActionNotFound
  | CallFailed
  | AccessControlUnauthorizedAccount address role
  | AccessControlBadConfirmation
  | EnforcedPause
  | ExpectedPause
  | ReentrancyGuardReentrantCall
  | TokenCallFailed address
  | PanicOverflow
  | PanicDivisionByZero

datatype ActionType = SwapTokens | AddLiquidity | SupplyLending | Stake | Rebalance

text \<open>\<^verbatim>\<open>struct Action\<close>; the field \<^verbatim>\<open>value\<close> is called \<open>val\<close> here.\<close>

record Action =
  target :: address
  val :: uint256
  proposedAt :: uint256
  executionTime :: uint256
  approvals :: uint256
  executed :: bool
  actionType :: ActionType
  data :: bytes

record AllocationItem =
  asset :: address
  amount :: uint256
  percentage :: uint256
  valueUSD :: uint256

datatype event =
    ActionProposed bytes32 ActionType address
  | ActionApproved bytes32 address uint256
  | ActionExecuted bytes32 bool
  | Deposit address uint256 address
  | StrategyApproved address
  | EmergencyWithdraw address address uint256

text \<open>The storage of the contract. \<open>roles\<close> is AccessControl's role table, \<open>paused\<close>
  Pausable's flag, \<open>entered\<close> the status of ReentrancyGuard, \<open>logs\<close> the events declared by the
  contract that were emitted so far (a revert discards the events of the reverted call with
  the rest). \<open>nativeBalance\<close> is \<^verbatim>\<open>address(this).balance\<close>, the native currency the account
  holds: it is not the ledger entry \<open>assetBalances 0\<close>.\<close>

record TreasuryVault =
  approvalThreshold :: uint256
  ownerCount :: uint256
  pendingActions :: "bytes32 \<Rightarrow> Action"
  actionApprovals :: "bytes32 \<Rightarrow> address \<Rightarrow> bool"
  assetBalances :: "address \<Rightarrow> uint256"
  supportedAssets :: "address list"
  approvedStrategies :: "address \<Rightarrow> bool"
  roles :: "role \<Rightarrow> address \<Rightarrow> bool"
  paused :: bool
  entered :: bool
  logs :: "event list"
  nativeBalance :: uint256

definition LARGE_TX_THRESHOLD :: uint256 where
  "LARGE_TX_THRESHOLD = 10"

definition TIME_LOCK_DELAY :: uint256 where
  "TIME_LOCK_DELAY = 86400"

text \<open>The zero value of \<^verbatim>\<open>struct Action\<close>, read from \<open>pendingActions\<close> at an unused key.\<close>

definition zeroAction :: Action where
  "zeroAction = \<lparr>target = 0, val = 0, proposedAt = 0, executionTime = 0, approvals = 0,
     executed = False, actionType = SwapTokens, data = []\<rparr>"

section \<open>Checked arithmetic\<close>

text \<open>Outside \<^verbatim>\<open>unchecked\<close> blocks the compiler checks every \<^verbatim>\<open>+\<close>, \<^verbatim>\<open>*\<close> and \<^verbatim>\<open>/\<close> on
  \<^verbatim>\<open>uint256\<close> and reverts with a panic.\<close>

definition checkedAdd :: "uint256 \<Rightarrow> uint256 \<Rightarrow> error + uint256" where
  "checkedAdd a b = (if 2 ^ 256 \<le> unat a + unat b then Inl PanicOverflow else Inr (a + b))"

definition checkedMul :: "uint256 \<Rightarrow> uint256 \<Rightarrow> error + uint256" where
  "checkedMul a b = (if 2 ^ 256 \<le> unat a * unat b then Inl PanicOverflow else Inr (a * b))"

definition checkedDiv :: "uint256 \<Rightarrow> uint256 \<Rightarrow> error + uint256" where
  "checkedDiv a b = (if b = 0 then Inl PanicDivisionByZero else Inr (a div b))"

section \<open>Access control, constructor\<close>

definition hasRole :: "TreasuryVault \<Rightarrow> role \<Rightarrow> address \<Rightarrow> bool" where
  "hasRole s r a = roles s r a"

text \<open>\<^verbatim>\<open>_grantRole\<close> and \<^verbatim>\<open>_revokeRole\<close> on the role table.\<close>

definition grant :: "(role \<Rightarrow> address \<Rightarrow> bool) \<Rightarrow> role \<Rightarrow> address \<Rightarrow> (role \<Rightarrow> address \<Rightarrow> bool)" where
  "grant t r a = t(r := (t r)(a := True))"

definition revoke :: "(role \<Rightarrow> address \<Rightarrow> bool) \<Rightarrow> role \<Rightarrow> address \<Rightarrow> (role \<Rightarrow> address \<Rightarrow> bool)" where
  "revoke t r a = t(r := (t r)(a := False))"

text \<open>The loop of the constructor granting \<open>OWNER_ROLE\<close> to every owner.\<close>

fun grantOwners :: "(role \<Rightarrow> address \<Rightarrow> bool) \<Rightarrow> address list \<Rightarrow> (role \<Rightarrow> address \<Rightarrow> bool)" where
  "grantOwners t [] = t"
| "grantOwners t (a # as) = grantOwners (grant t OWNER_ROLE a) as"

definition constructor :: "address list \<Rightarrow> uint256 \<Rightarrow> error + TreasuryVault" where
  "constructor owners threshold =
     (case owners of
        [] \<Rightarrow> Inl InvalidOwnerCount
      | first # rest \<Rightarrow>
          if threshold = 0 \<or> length owners < unat threshold then Inl InvalidThreshold
          else Inr \<lparr>approvalThreshold = threshold,
                    ownerCount = word_of_nat (length owners),
                    pendingActions = (\<lambda>k. zeroAction),
                    actionApprovals = (\<lambda>k a. False),
                    assetBalances = (\<lambda>a. 0),
                    supportedAssets = [0],
                    approvedStrategies = (\<lambda>a. False),
                    roles = grantOwners (grant (\<lambda>r a. False) DEFAULT_ADMIN_ROLE first) owners,
                    paused = False,
                    entered = False,
                    logs = [],
                    nativeBalance = 0\<rparr>)"

text \<open>\<^verbatim>\<open>grantRole\<close>, \<^verbatim>\<open>revokeRole\<close> and \<^verbatim>\<open>renounceRole\<close> of AccessControl; the admin role of
  every role is \<open>DEFAULT_ADMIN_ROLE\<close>, the contract never changes it.\<close>

definition grantRole :: "TreasuryVault \<Rightarrow> address \<Rightarrow> role \<Rightarrow> address \<Rightarrow> error + TreasuryVault" where
  "grantRole s sender r account =
     (if \<not> hasRole s DEFAULT_ADMIN_ROLE sender
      then Inl (AccessControlUnauthorizedAccount sender DEFAULT_ADMIN_ROLE)
      else Inr (s\<lparr>roles := grant (roles s) r account\<rparr>))"

definition revokeRole :: "TreasuryVault \<Rightarrow> address \<Rightarrow> role \<Rightarrow> address \<Rightarrow> error + TreasuryVault" where
  "revokeRole s sender r account =
     (if \<not> hasRole s DEFAULT_ADMIN_ROLE sender
      then Inl (AccessControlUnauthorizedAccount sender DEFAULT_ADMIN_ROLE)
      else Inr (s\<lparr>roles := revoke (roles s) r account\<rparr>))"

definition renounceRole :: "TreasuryVault \<Rightarrow> address \<Rightarrow> role \<Rightarrow> address \<Rightarrow> error + TreasuryVault" where
  "renounceRole s sender r callerConfirmation =
     (if callerConfirmation = sender then Inr (s\<lparr>roles := revoke (roles s) r sender\<rparr>)
      else Inl AccessControlBadConfirmation)"

section \<open>Action lifecycle\<close>

text \<open>\<^verbatim>\<open>abi.encodePacked(target, data, value, block.timestamp, msg.sender)\<close>: 20 bytes, the
  payload as it is, 32 bytes, 32 bytes, 20 bytes, all big-endian.\<close>

fun toBytes :: "nat \<Rightarrow> nat \<Rightarrow> bytes" where
  "toBytes 0 x = []"
| "toBytes (Suc n) x = toBytes n (x div 256) @ [word_of_nat (x mod 256)]"

definition encodePacked :: "address \<Rightarrow> bytes \<Rightarrow> uint256 \<Rightarrow> uint256 \<Rightarrow> address \<Rightarrow> bytes" where
  "encodePacked tgt payload v ts sender =
     toBytes 20 (unat tgt) @ payload @ toBytes 32 (unat v) @ toBytes 32 (unat ts) @ toBytes 20 (unat sender)"

text \<open>\<^verbatim>\<open>_isLargeTransaction\<close>.\<close>

definition isLargeTransaction :: "TreasuryVault \<Rightarrow> uint256 \<Rightarrow> error + bool" where
  "isLargeTransaction s v =
     (let bnbBalance = assetBalances s 0 in
      if bnbBalance = 0 then Inr False
      else case checkedMul v 100 of
             Inl e \<Rightarrow> Inl e
           | Inr product \<Rightarrow>
              (case checkedDiv product bnbBalance of
                 Inl e \<Rightarrow> Inl e
               | Inr ratio \<Rightarrow> Inr (LARGE_TX_THRESHOLD \<le> ratio)))"

text \<open>\<^verbatim>\<open>proposeAction\<close>. The hash \<^verbatim>\<open>keccak256\<close> is a built-in of the platform and is the
  parameter \<open>kec\<close>. The conjunction \<^verbatim>\<open>value > 0 && _isLargeTransaction(value)\<close> does not
  evaluate its right side when \<^verbatim>\<open>value\<close> is 0.\<close>

definition proposeAction ::
  "(bytes \<Rightarrow> bytes32) \<Rightarrow> TreasuryVault \<Rightarrow> address \<Rightarrow> uint256 \<Rightarrow> address \<Rightarrow> bytes \<Rightarrow> uint256 \<Rightarrow> ActionType
     \<Rightarrow> error + (TreasuryVault \<times> bytes32)" where
  "proposeAction kec s sender now tgt payload v atype =
     (if paused s then Inl EnforcedPause
      else if \<not> hasRole s EXECUTOR_ROLE sender \<and> \<not> hasRole s AI_AGENT_ROLE sender
      then Inl (AccessControlUnauthorizedAccount sender EXECUTOR_ROLE)
      else
        let actionId = kec (encodePacked tgt payload v now sender) in
        case (if 0 < v then isLargeTransaction s v else Inr False) of
          Inl e \<Rightarrow> Inl e
        | Inr large \<Rightarrow>
           (case (if large then checkedAdd now TIME_LOCK_DELAY else Inr now) of
              Inl e \<Rightarrow> Inl e
            | Inr execTime \<Rightarrow>
                Inr (s\<lparr>pendingActions := (pendingActions s)(actionId :=
                          \<lparr>target = tgt, val = v, proposedAt = now, executionTime = execTime,
                           approvals = 0, executed = False, actionType = atype, data = payload\<rparr>),
                        logs := logs s @ [ActionProposed actionId atype sender]\<rparr>,
                     actionId)))"

text \<open>\<^verbatim>\<open>approveAction\<close>, with \<^verbatim>\<open>onlyRole(OWNER_ROLE)\<close>.\<close>

definition approveAction :: "TreasuryVault \<Rightarrow> address \<Rightarrow> bytes32 \<Rightarrow> error + TreasuryVault" where
  "approveAction s sender actionId =
     (if \<not> hasRole s OWNER_ROLE sender then Inl (AccessControlUnauthorizedAccount sender OWNER_ROLE)
      else
        let action = pendingActions s actionId in
        if proposedAt action = 0 then Inl ActionNotFound
        else if executed action then Inl ActionAlreadyExecuted
        else if actionApprovals s actionId sender then Inl AlreadyApproved
        else
          let action' = action\<lparr>approvals := approvals action + 1\<rparr> in
          Inr (s\<lparr>actionApprovals := (actionApprovals s)(actionId := (actionApprovals s actionId)(sender := True)),
                  pendingActions := (pendingActions s)(actionId := action'),
                  logs := logs s @ [ActionApproved actionId sender (approvals action')]\<rparr>))"

text \<open>
  A low-level call \<^verbatim>\<open>tgt.call{value: v}(...)\<close> made in state \<open>m\<close>. It fails when the
  account holds less than \<open>v\<close>. Otherwise the value leaves the account; the zero address
  has no code, so a call to it then succeeds and runs nothing. Any other target is the
  environment: \<open>callee\<close> receives the state at that moment and returns the success flag
  with the state as the target's code left it (it may have called back into the
  contract). When the target reverts, the value and everything its code did are undone.
\<close>

definition forwardCall ::
  "TreasuryVault \<Rightarrow> address \<Rightarrow> uint256 \<Rightarrow> (TreasuryVault \<Rightarrow> bool \<times> TreasuryVault) \<Rightarrow> bool \<times> TreasuryVault" where
  "forwardCall m tgt v callee =
     (if nativeBalance m < v then (False, m)
      else if tgt = 0 then (True, m\<lparr>nativeBalance := nativeBalance m - v\<rparr>)
      else case callee (m\<lparr>nativeBalance := nativeBalance m - v\<rparr>) of
             (ok, m2) \<Rightarrow> if ok then (True, m2) else (False, m))"

text \<open>A call of SafeERC20 to \<open>token\<close>: it fails on the zero address (no code), otherwise
  the token is the environment.\<close>

definition tokenCall ::
  "TreasuryVault \<Rightarrow> address \<Rightarrow> (TreasuryVault \<Rightarrow> bool \<times> TreasuryVault) \<Rightarrow> bool \<times> TreasuryVault" where
  "tokenCall m token callee =
     (if token = 0 then (False, m)
      else case callee m of
             (ok, m2) \<Rightarrow> if ok then (True, m2) else (False, m))"

text \<open>
  \<^verbatim>\<open>executeAction\<close>, with \<^verbatim>\<open>nonReentrant whenNotPaused\<close>. \<open>beforeCall\<close> is the storage at
  the forwarded call \<^verbatim>\<open>action.target.call{value: action.value}(action.data)\<close>, \<open>afterCall\<close>
  the rest of the function. \<^verbatim>\<open>action\<close> is a storage reference, so \<^verbatim>\<open>action.value\<close> after
  the call is read from the storage then.
\<close>

definition executeChecks :: "TreasuryVault \<Rightarrow> uint256 \<Rightarrow> bytes32 \<Rightarrow> error option" where
  "executeChecks s now actionId =
     (let action = pendingActions s actionId in
      if entered s then Some ReentrancyGuardReentrantCall
      else if paused s then Some EnforcedPause
      else if proposedAt action = 0 then Some ActionNotFound
      else if executed action then Some ActionAlreadyExecuted
      else if approvals action < approvalThreshold s then Some InsufficientApprovals
      else if now < executionTime action then Some TimeLockNotExpired
      else if target action \<noteq> 0 \<and> \<not> approvedStrategies s (target action) then Some UnauthorizedStrategy
      else None)"

definition beforeCall :: "TreasuryVault \<Rightarrow> bytes32 \<Rightarrow> TreasuryVault" where
  "beforeCall s actionId =
     s\<lparr>entered := True,
       pendingActions := (pendingActions s)(actionId := (pendingActions s actionId)\<lparr>executed := True\<rparr>)\<rparr>"

definition afterCall :: "bytes32 \<Rightarrow> bool \<times> TreasuryVault \<Rightarrow> error + TreasuryVault" where
  "afterCall actionId r =
     (case r of (success, s2) \<Rightarrow>
        let action = pendingActions s2 actionId;
            s3 = (if 0 < val action
                  then s2\<lparr>assetBalances := (assetBalances s2)(0 := assetBalances s2 0 - val action)\<rparr>
                  else s2);
            s4 = s3\<lparr>logs := logs s3 @ [ActionExecuted actionId success]\<rparr>
        in if \<not> success then Inl CallFailed else Inr (s4\<lparr>entered := False\<rparr>))"

definition executeAction ::
  "TreasuryVault \<Rightarrow> uint256 \<Rightarrow> bytes32 \<Rightarrow> (TreasuryVault \<Rightarrow> bool \<times> TreasuryVault) \<Rightarrow> error + TreasuryVault" where
  "executeAction s now actionId callee =
     (case executeChecks s now actionId of
        Some e \<Rightarrow> Inl e
      | None \<Rightarrow>
          afterCall actionId
            (forwardCall (beforeCall s actionId) (target (pendingActions s actionId))
               (val (pendingActions s actionId)) callee))"

section \<open>Asset management\<close>

text \<open>\<^verbatim>\<open>deposit\<close>: the token's \<^verbatim>\<open>safeTransferFrom\<close> is an external call.\<close>

definition deposit ::
  "TreasuryVault \<Rightarrow> address \<Rightarrow> address \<Rightarrow> uint256 \<Rightarrow> (TreasuryVault \<Rightarrow> bool \<times> TreasuryVault) \<Rightarrow> error + TreasuryVault" where
  "deposit s sender token amt callee =
     (if entered s then Inl ReentrancyGuardReentrantCall
      else if paused s then Inl EnforcedPause
      else if amt = 0 then Inl InsufficientBalance
      else case tokenCall (s\<lparr>entered := True\<rparr>) token callee of (ok, s2) \<Rightarrow>
        if \<not> ok then Inl (TokenCallFailed token)
        else Inr (s2\<lparr>assetBalances := (assetBalances s2)(token := assetBalances s2 token + amt),
                     logs := logs s2 @ [Deposit token amt sender],
                     entered := False\<rparr>))"

definition depositBNB :: "TreasuryVault \<Rightarrow> address \<Rightarrow> uint256 \<Rightarrow> error + TreasuryVault" where
  "depositBNB s sender msgValue =
     (if entered s then Inl ReentrancyGuardReentrantCall
      else if paused s then Inl EnforcedPause
      else if msgValue = 0 then Inl InsufficientBalance
      else Inr (s\<lparr>assetBalances := (assetBalances s)(0 := assetBalances s 0 + msgValue),
                  logs := logs s @ [Deposit 0 msgValue sender],
                  nativeBalance := nativeBalance s + msgValue\<rparr>))"

text \<open>\<^verbatim>\<open>receive()\<close>: a plain transfer of native currency to the contract. As in
  \<open>depositBNB\<close>, \<^verbatim>\<open>msg.value\<close> is in the account when the function runs.\<close>

definition receive :: "TreasuryVault \<Rightarrow> address \<Rightarrow> uint256 \<Rightarrow> error + TreasuryVault" where
  "receive s sender msgValue =
     Inr (s\<lparr>assetBalances := (assetBalances s)(0 := assetBalances s 0 + msgValue),
            logs := logs s @ [Deposit 0 msgValue sender],
            nativeBalance := nativeBalance s + msgValue\<rparr>)"

text \<open>\<^verbatim>\<open>getAllocation\<close>: the two loops over \<open>supportedAssets\<close>. \<open>percentageOf\<close> is the
  conditional expression \<^verbatim>\<open>totalBalance > 0 ? (bal * 10_000) / totalBalance : 0\<close>.\<close>

fun totalBalanceLoop :: "(address \<Rightarrow> uint256) \<Rightarrow> address list \<Rightarrow> uint256 \<Rightarrow> error + uint256" where
  "totalBalanceLoop bal [] totalBalance = Inr totalBalance"
| "totalBalanceLoop bal (a # as) totalBalance =
     (case checkedAdd totalBalance (bal a) of
        Inl e \<Rightarrow> Inl e
      | Inr t \<Rightarrow> totalBalanceLoop bal as t)"

definition percentageOf :: "uint256 \<Rightarrow> uint256 \<Rightarrow> error + uint256" where
  "percentageOf b totalBalance =
     (if 0 < totalBalance
      then (case checkedMul b 10000 of
              Inl e \<Rightarrow> Inl e
            | Inr product \<Rightarrow> checkedDiv product totalBalance)
      else Inr 0)"

fun itemsLoop :: "(address \<Rightarrow> uint256) \<Rightarrow> uint256 \<Rightarrow> address list \<Rightarrow> error + AllocationItem list" where
  "itemsLoop bal totalBalance [] = Inr []"
| "itemsLoop bal totalBalance (a # as) =
     (case percentageOf (bal a) totalBalance of
        Inl e \<Rightarrow> Inl e
      | Inr p \<Rightarrow>
         (case itemsLoop bal totalBalance as of
            Inl e \<Rightarrow> Inl e
          | Inr items \<Rightarrow> Inr (\<lparr>asset = a, amount = bal a, percentage = p, valueUSD = 0\<rparr> # items)))"

definition getAllocation :: "TreasuryVault \<Rightarrow> error + AllocationItem list" where
  "getAllocation s =
     (case totalBalanceLoop (assetBalances s) (supportedAssets s) 0 of
        Inl e \<Rightarrow> Inl e
      | Inr totalBalance \<Rightarrow> itemsLoop (assetBalances s) totalBalance (supportedAssets s))"

section \<open>Strategies, assets, pause, emergency withdrawal\<close>

definition approveStrategy :: "TreasuryVault \<Rightarrow> address \<Rightarrow> address \<Rightarrow> error + TreasuryVault" where
  "approveStrategy s sender strategy =
     (if \<not> hasRole s OWNER_ROLE sender then Inl (AccessControlUnauthorizedAccount sender OWNER_ROLE)
      else Inr (s\<lparr>approvedStrategies := (approvedStrategies s)(strategy := True),
                  logs := logs s @ [StrategyApproved strategy]\<rparr>))"

text \<open>The duplicate search of \<^verbatim>\<open>addSupportedAsset\<close>.\<close>

fun isSupported :: "address list \<Rightarrow> address \<Rightarrow> bool" where
  "isSupported [] token = False"
| "isSupported (a # as) token = (if a = token then True else isSupported as token)"

definition addSupportedAsset :: "TreasuryVault \<Rightarrow> address \<Rightarrow> address \<Rightarrow> error + TreasuryVault" where
  "addSupportedAsset s sender token =
     (if \<not> hasRole s OWNER_ROLE sender then Inl (AccessControlUnauthorizedAccount sender OWNER_ROLE)
      else if isSupported (supportedAssets s) token then Inr s
      else Inr (s\<lparr>supportedAssets := supportedAssets s @ [token]\<rparr>))"

definition pause :: "TreasuryVault \<Rightarrow> address \<Rightarrow> error + TreasuryVault" where
  "pause s sender =
     (if \<not> hasRole s OWNER_ROLE sender then Inl (AccessControlUnauthorizedAccount sender OWNER_ROLE)
      else if paused s then Inl EnforcedPause
      else Inr (s\<lparr>paused := True\<rparr>))"

definition unpause :: "TreasuryVault \<Rightarrow> address \<Rightarrow> error + TreasuryVault" where
  "unpause s sender =
     (if \<not> hasRole s OWNER_ROLE sender then Inl (AccessControlUnauthorizedAccount sender OWNER_ROLE)
      else if \<not> paused s then Inl ExpectedPause
      else Inr (s\<lparr>paused := False\<rparr>))"

text \<open>\<^verbatim>\<open>emergencyWithdraw\<close>, with \<^verbatim>\<open>nonReentrant onlyRole(OWNER_ROLE)\<close>; the transfer to
  \<^verbatim>\<open>to\<close> (native currency or token) is an external call.\<close>

definition emergencyWithdraw ::
  "TreasuryVault \<Rightarrow> address \<Rightarrow> address \<Rightarrow> address \<Rightarrow> uint256 \<Rightarrow> (TreasuryVault \<Rightarrow> bool \<times> TreasuryVault)
     \<Rightarrow> error + TreasuryVault" where
  "emergencyWithdraw s sender token to amt callee =
     (if entered s then Inl ReentrancyGuardReentrantCall
      else if \<not> hasRole s OWNER_ROLE sender then Inl (AccessControlUnauthorizedAccount sender OWNER_ROLE)
      else if assetBalances s token < amt then Inl InsufficientBalance
      else
        let m = s\<lparr>entered := True,
                  assetBalances := (assetBalances s)(token := assetBalances s token - amt)\<rparr>
        in case (if token = 0 then forwardCall m to amt callee else tokenCall m token callee) of
          (ok, s2) \<Rightarrow>
            if \<not> ok then Inl (if token = 0 then CallFailed else TokenCallFailed token)
            else Inr (s2\<lparr>logs := logs s2 @ [EmergencyWithdraw token to amt], entered := False\<rparr>))"

section \<open>Transactions\<close>

text \<open>
  The external functions as data. A transaction is a sender, a block timestamp, a call
  and the behaviour of whatever contract the call reaches: the calls it makes back into
  the vault (each with its own sender, a failed one is caught) and whether it succeeds;
  when it reverts, what it did to the vault is undone with it. The functions that make an
  external call are all \<^verbatim>\<open>nonReentrant\<close>, so a call made back into the vault never reaches
  an external call of its own, and it is run with a callee that fails.
  \<open>Forced_transfer\<close> is no function of the contract: it is native currency credited to
  the account without running its code (the beneficiary of a \<^verbatim>\<open>SELFDESTRUCT\<close>, a block
  reward, currency sent to the address before deployment).
\<close>

datatype call =
    Call_proposeAction address bytes uint256 ActionType
  | Call_approveAction bytes32
  | Call_executeAction bytes32
  | Call_deposit address uint256
  | Call_depositBNB uint256
  | Call_receive uint256
  | Call_approveStrategy address
  | Call_addSupportedAsset address
  | Call_pause
  | Call_unpause
  | Call_emergencyWithdraw address address uint256
  | Call_grantRole role address
  | Call_revokeRole role address
  | Call_renounceRole role address
  | Forced_transfer uint256

fun invoke ::
  "(bytes \<Rightarrow> bytes32) \<Rightarrow> TreasuryVault \<Rightarrow> address \<Rightarrow> uint256 \<Rightarrow> (TreasuryVault \<Rightarrow> bool \<times> TreasuryVault) \<Rightarrow> call
     \<Rightarrow> error + TreasuryVault" where
  "invoke kec s sender now callee (Call_proposeAction tgt payload v atype) =
     (case proposeAction kec s sender now tgt payload v atype of Inl e \<Rightarrow> Inl e | Inr r \<Rightarrow> Inr (fst r))"
| "invoke kec s sender now callee (Call_approveAction actionId) = approveAction s sender actionId"
| "invoke kec s sender now callee (Call_executeAction actionId) = executeAction s now actionId callee"
| "invoke kec s sender now callee (Call_deposit token amt) = deposit s sender token amt callee"
| "invoke kec s sender now callee (Call_depositBNB msgValue) = depositBNB s sender msgValue"
| "invoke kec s sender now callee (Call_receive msgValue) = receive s sender msgValue"
| "invoke kec s sender now callee (Call_approveStrategy strategy) = approveStrategy s sender strategy"
| "invoke kec s sender now callee (Call_addSupportedAsset token) = addSupportedAsset s sender token"
| "invoke kec s sender now callee Call_pause = pause s sender"
| "invoke kec s sender now callee Call_unpause = unpause s sender"
| "invoke kec s sender now callee (Call_emergencyWithdraw token to amt) = emergencyWithdraw s sender token to amt callee"
| "invoke kec s sender now callee (Call_grantRole r account) = grantRole s sender r account"
| "invoke kec s sender now callee (Call_revokeRole r account) = revokeRole s sender r account"
| "invoke kec s sender now callee (Call_renounceRole r confirmation) = renounceRole s sender r confirmation"
| "invoke kec s sender now callee (Forced_transfer v) = Inr (s\<lparr>nativeBalance := nativeBalance s + v\<rparr>)"

definition noCallee :: "TreasuryVault \<Rightarrow> bool \<times> TreasuryVault" where
  "noCallee s = (False, s)"

text \<open>One call made back into the vault during an external call; a revert is caught.\<close>

definition reenter :: "(bytes \<Rightarrow> bytes32) \<Rightarrow> uint256 \<Rightarrow> TreasuryVault \<Rightarrow> address \<times> call \<Rightarrow> TreasuryVault" where
  "reenter kec now s c =
     (case invoke kec s (fst c) now noCallee (snd c) of Inl e \<Rightarrow> s | Inr s' \<Rightarrow> s')"

definition callback ::
  "(bytes \<Rightarrow> bytes32) \<Rightarrow> uint256 \<Rightarrow> (address \<times> call) list \<Rightarrow> bool \<Rightarrow> TreasuryVault \<Rightarrow> bool \<times> TreasuryVault" where
  "callback kec now script ok s = (if ok then (True, foldl (reenter kec now) s script) else (False, s))"

record tx =
  origin :: address
  timestamp :: uint256
  called :: call
  script :: "(address \<times> call) list"
  succeeds :: bool

definition step :: "(bytes \<Rightarrow> bytes32) \<Rightarrow> TreasuryVault \<Rightarrow> tx \<Rightarrow> TreasuryVault" where
  "step kec s t =
     (case invoke kec s (origin t) (timestamp t) (callback kec (timestamp t) (script t) (succeeds t)) (called t) of
        Inl e \<Rightarrow> s
      | Inr s' \<Rightarrow> s')"

definition run :: "(bytes \<Rightarrow> bytes32) \<Rightarrow> TreasuryVault \<Rightarrow> tx list \<Rightarrow> TreasuryVault" where
  "run kec s ts = foldl (step kec) s ts"

section \<open>Predicates on states and transactions\<close>

text \<open>An action that exists (\<^verbatim>\<open>proposedAt != 0\<close>) and carries the \<open>executed\<close> flag.\<close>

definition isExecuted :: "TreasuryVault \<Rightarrow> bytes32 \<Rightarrow> bool" where
  "isExecuted s actionId = (proposedAt (pendingActions s actionId) \<noteq> 0 \<and> executed (pendingActions s actionId))"

text \<open>A call of \<open>proposeAction\<close> whose arguments, timestamp and sender hash to the given
  identifier; a transaction that makes such a call, itself or from its callee.\<close>

definition proposes :: "(bytes \<Rightarrow> bytes32) \<Rightarrow> bytes32 \<Rightarrow> uint256 \<Rightarrow> address \<times> call \<Rightarrow> bool" where
  "proposes kec actionId now c =
     (case snd c of
        Call_proposeAction tgt payload v atype \<Rightarrow> kec (encodePacked tgt payload v now (fst c)) = actionId
      | _ \<Rightarrow> False)"

definition txProposes :: "(bytes \<Rightarrow> bytes32) \<Rightarrow> bytes32 \<Rightarrow> tx \<Rightarrow> bool" where
  "txProposes kec actionId t =
     (proposes kec actionId (timestamp t) (origin t, called t)
      \<or> list_ex (proposes kec actionId (timestamp t)) (script t))"

text \<open>
  The state in which the code of an external callee starts to run, if the call \<open>c\<close> made
  in state \<open>s\<close> gets that far: \<open>forwardSite\<close> for a low-level call with value, \<open>tokenSite\<close>
  for a call of SafeERC20. The calls of a callee's script then run one after the other
  from there; \<open>duringCall\<close> is the state in which the call of index \<open>k\<close> runs.
\<close>

definition forwardSite :: "TreasuryVault \<Rightarrow> address \<Rightarrow> uint256 \<Rightarrow> TreasuryVault option" where
  "forwardSite m tgt v =
     (if nativeBalance m < v then None
      else if tgt = 0 then None
      else Some (m\<lparr>nativeBalance := nativeBalance m - v\<rparr>))"

definition tokenSite :: "TreasuryVault \<Rightarrow> address \<Rightarrow> TreasuryVault option" where
  "tokenSite m token = (if token = 0 then None else Some m)"

definition handover :: "TreasuryVault \<Rightarrow> address \<Rightarrow> uint256 \<Rightarrow> call \<Rightarrow> TreasuryVault option" where
  "handover s sender now c =
     (case c of
        Call_executeAction actionId \<Rightarrow>
          (case executeChecks s now actionId of
             Some e \<Rightarrow> None
           | None \<Rightarrow> forwardSite (beforeCall s actionId) (target (pendingActions s actionId))
                       (val (pendingActions s actionId)))
      | Call_deposit token amt \<Rightarrow>
          (if entered s then None
           else if paused s then None
           else if amt = 0 then None
           else tokenSite (s\<lparr>entered := True\<rparr>) token)
      | Call_emergencyWithdraw token to amt \<Rightarrow>
          (if entered s then None
           else if \<not> hasRole s OWNER_ROLE sender then None
           else if assetBalances s token < amt then None
           else if token = 0
           then forwardSite (s\<lparr>entered := True,
                  assetBalances := (assetBalances s)(token := assetBalances s token - amt)\<rparr>) to amt
           else tokenSite (s\<lparr>entered := True,
                  assetBalances := (assetBalances s)(token := assetBalances s token - amt)\<rparr>) token)
      | _ \<Rightarrow> None)"

definition duringCall ::
  "(bytes \<Rightarrow> bytes32) \<Rightarrow> uint256 \<Rightarrow> TreasuryVault \<Rightarrow> (address \<times> call) list \<Rightarrow> nat \<Rightarrow> TreasuryVault" where
  "duringCall kec now m sc k = foldl (reenter kec now) m (take k sc)"

section \<open>Concrete scenarios\<close>

text \<open>
  The scenarios of the test suite: three owners, threshold 2 (and a vault with two owners
  and threshold 1). \<open>digest\<close> stands for the hash in these concrete runs: a polynomial in
  all the bytes of its argument, modulo \<open>2 ^ 256\<close>. It is not \<^verbatim>\<open>keccak256\<close>, and nothing
  below depends on its values: no vault holds two different proposals, the runs only use
  that equal arguments give equal identifiers, and the general theorems hold for every
  hash function.
\<close>

definition digest :: "bytes \<Rightarrow> bytes32" where
  "digest bs = foldl (\<lambda>acc b. acc * 257 + ucast b + 1) 0 bs"

definition owner1 :: address where "owner1 = 0x11"
definition owner2 :: address where "owner2 = 0x22"
definition owner3 :: address where "owner3 = 0x33"
definition stranger :: address where "stranger = 0x99"

text \<open>The address of a contract that the owners whitelist as a strategy.\<close>

definition strategy :: address where "strategy = 0x5757"

definition deployed :: "address list \<Rightarrow> uint256 \<Rightarrow> TreasuryVault" where
  "deployed owners threshold = projr (constructor owners threshold)"

definition mkTx :: "address \<Rightarrow> uint256 \<Rightarrow> call \<Rightarrow> tx" where
  "mkTx a now c = \<lparr>origin = a, timestamp = now, called = c, script = [], succeeds = True\<rparr>"

text \<open>A funded vault whose first owner may propose.\<close>

definition funded :: TreasuryVault where
  "funded = run digest (deployed [owner1, owner2, owner3] 2)
     [mkTx owner1 1000 (Call_depositBNB 100),
      mkTx owner1 1000 (Call_grantRole EXECUTOR_ROLE owner1)]"

text \<open>A 5-unit transfer proposed against a ledger of 100 and approved by two owners.\<close>

definition smallId :: bytes32 where
  "smallId = digest (encodePacked 0 [] 5 1000 owner1)"

definition approvedSmall :: TreasuryVault where
  "approvedSmall = run digest (deployed [owner1, owner2, owner3] 2)
     [mkTx owner1 1000 (Call_depositBNB 100),
      mkTx owner1 1000 (Call_grantRole EXECUTOR_ROLE owner1),
      mkTx owner1 1000 (Call_proposeAction 0 [] 5 SwapTokens),
      mkTx owner1 1000 (Call_approveAction smallId),
      mkTx owner2 1000 (Call_approveAction smallId)]"

text \<open>The same proposal before any approval, and after the first one.\<close>

definition proposedSmall :: TreasuryVault where
  "proposedSmall = run digest funded [mkTx owner1 1000 (Call_proposeAction 0 [] 5 SwapTokens)]"

definition approvedOnce :: TreasuryVault where
  "approvedOnce = projr (approveAction proposedSmall owner1 smallId)"

text \<open>A 5-unit action towards the whitelisted strategy contract, approved by two owners;
  and its execution when the code of the strategy reverts.\<close>

definition stratId :: bytes32 where
  "stratId = digest (encodePacked strategy [] 5 1000 owner1)"

definition approvedStrat :: TreasuryVault where
  "approvedStrat = run digest funded
     [mkTx owner1 1000 (Call_approveStrategy strategy),
      mkTx owner1 1000 (Call_proposeAction strategy [] 5 SwapTokens),
      mkTx owner1 1000 (Call_approveAction stratId),
      mkTx owner2 1000 (Call_approveAction stratId)]"

definition failingExecute :: tx where
  "failingExecute = \<lparr>origin = stranger, timestamp = 1000, called = Call_executeAction stratId,
     script = [], succeeds = False\<rparr>"

text \<open>The action executed; then the vault paused; then the same proposal made again in the
  same block, with another category.\<close>

definition executedSmall :: TreasuryVault where
  "executedSmall = step digest approvedSmall (mkTx stranger 1000 (Call_executeAction smallId))"

definition pausedAfter :: TreasuryVault where
  "pausedAfter = step digest executedSmall (mkTx owner1 1001 Call_pause)"

definition reproposed :: TreasuryVault where
  "reproposed = step digest executedSmall (mkTx owner1 1000 (Call_proposeAction 0 [] 5 Rebalance))"

text \<open>Two owners, threshold 1: a proposal executed, proposed again in the same block,
  approved by the other owner and executed again.\<close>

definition soloId :: bytes32 where
  "soloId = digest (encodePacked 0 [] 0 1000 owner1)"

definition soloExecuted :: TreasuryVault where
  "soloExecuted = run digest (deployed [owner1, owner2] 1)
     [mkTx owner1 1000 (Call_grantRole EXECUTOR_ROLE owner1),
      mkTx owner1 1000 (Call_proposeAction 0 [] 0 SwapTokens),
      mkTx owner1 1000 (Call_approveAction soloId),
      mkTx stranger 1000 (Call_executeAction soloId)]"

definition soloAgain :: TreasuryVault where
  "soloAgain = run digest soloExecuted
     [mkTx owner1 1000 (Call_proposeAction 0 [] 0 SwapTokens),
      mkTx owner2 1000 (Call_approveAction soloId)]"

text \<open>Two owners, threshold 1, and a strategy contract that holds \<open>AI_AGENT_ROLE\<close>: it
  proposes an action towards itself and, when the action is executed in the same block,
  proposes it again from inside the forwarded call; the other owner approves and the
  action is executed again.\<close>

definition agentId :: bytes32 where
  "agentId = digest (encodePacked strategy [] 0 1000 strategy)"

definition agentApproved :: TreasuryVault where
  "agentApproved = run digest (deployed [owner1, owner2] 1)
     [mkTx owner1 1000 (Call_grantRole AI_AGENT_ROLE strategy),
      mkTx owner1 1000 (Call_approveStrategy strategy),
      mkTx strategy 1000 (Call_proposeAction strategy [] 0 SwapTokens),
      mkTx owner1 1000 (Call_approveAction agentId)]"

definition agentExecute :: tx where
  "agentExecute = \<lparr>origin = stranger, timestamp = 1000, called = Call_executeAction agentId,
     script = [(strategy, Call_proposeAction strategy [] 0 SwapTokens)], succeeds = True\<rparr>"

definition agentAgain :: TreasuryVault where
  "agentAgain = run digest agentApproved
     [agentExecute, mkTx owner2 1000 (Call_approveAction agentId)]"

text \<open>A 20-unit transfer proposed against the ledger of 100.\<close>

definition largeProposal :: "TreasuryVault \<times> bytes32" where
  "largeProposal = projr (proposeAction digest funded owner1 1000 owner3 [] 20 SwapTokens)"

text \<open>A proposal whose target was never whitelisted, without any approval.\<close>

definition unlistedId :: bytes32 where
  "unlistedId = digest (encodePacked stranger [] 0 1000 owner1)"

definition unlistedProposed :: TreasuryVault where
  "unlistedProposed = run digest funded [mkTx owner1 1000 (Call_proposeAction stranger [] 0 SwapTokens)]"

definition unlistedApproved :: TreasuryVault where
  "unlistedApproved = run digest unlistedProposed
     [mkTx owner1 1000 (Call_approveAction unlistedId),
      mkTx owner2 1000 (Call_approveAction unlistedId)]"



text \<open>Three registered assets with a balance of 1 each.\<close>

definition threeAssets :: TreasuryVault where
  "threeAssets = run digest (deployed [owner1, owner2, owner3] 2)
     [mkTx owner1 1000 (Call_addSupportedAsset 0xA1),
      mkTx owner1 1000 (Call_addSupportedAsset 0xA2),
      mkTx owner1 1000 (Call_depositBNB 1),
      mkTx owner1 1000 (Call_deposit 0xA1 1),
      mkTx owner1 1000 (Call_deposit 0xA2 1)]"

text \<open>A registered token of which \<open>2 ^ 255\<close> units were deposited.\<close>

definition hugeToken :: TreasuryVault where
  "hugeToken = run digest (deployed [owner1, owner2, owner3] 2)
     [mkTx owner1 1000 (Call_addSupportedAsset 0xA1),
      mkTx owner1 1000 (Call_deposit 0xA1 57896044618658097711785492504343953926634992332820282019728792003956564819968)]"

text \<open>The code of the strategy contract reading the public getters of the vault: it
  succeeds exactly when it finds its action marked executed and the ledger still at 100.\<close>

definition probe :: "TreasuryVault \<Rightarrow> bool \<times> TreasuryVault" where
  "probe m = (executed (pendingActions m stratId) \<and> assetBalances m 0 = 100, m)"

section \<open>Unfolding rules and facts about checked arithmetic\<close>

lemmas vault_defs = proposeAction_def approveAction_def executeAction_def executeChecks_def
  beforeCall_def afterCall_def deposit_def depositBNB_def receive_def approveStrategy_def
  addSupportedAsset_def pause_def unpause_def emergencyWithdraw_def grantRole_def
  revokeRole_def renounceRole_def hasRole_def grant_def revoke_def isLargeTransaction_def
  checkedAdd_def checkedMul_def checkedDiv_def LARGE_TX_THRESHOLD_def TIME_LOCK_DELAY_def
  forwardCall_def tokenCall_def Let_def

lemmas run_defs = run_def step_def callback_def reenter_def noCallee_def mkTx_def deployed_def
  constructor_def

lemmas scenario_defs = owner1_def owner2_def owner3_def stranger_def strategy_def

lemmas call_splits = if_splits sum.splits prod.splits option.splits

lemma checkedAdd_Inr:
  assumes "checkedAdd a b = Inr c"
  shows "c = a + b" and "unat c = unat a + unat b"
proof -
  from assms have lt: "unat a + unat b < 2 ^ LENGTH(256)" and c: "c = a + b"
    by (auto simp: checkedAdd_def split: if_splits)
  show "c = a + b" by (rule c)
  from lt have "unat (a + b) = unat a + unat b"
    by (simp only: unat_add_lem)
  then show "unat c = unat a + unat b" using c by simp
qed

lemma checkedMul_Inr:
  assumes "checkedMul a b = Inr c"
  shows "c = a * b" and "unat c = unat a * unat b"
proof -
  from assms have lt: "unat a * unat b < 2 ^ LENGTH(256)" and c: "c = a * b"
    by (auto simp: checkedMul_def split: if_splits)
  show "c = a * b" by (rule c)
  from lt have "unat (a * b) = unat a * unat b"
    by (simp only: unat_mult_lem)
  then show "unat c = unat a * unat b" using c by simp
qed

lemma checkedDiv_Inr:
  assumes "checkedDiv a b = Inr c"
  shows "b \<noteq> 0" and "unat c = unat a div unat b"
  using assms by (auto simp: checkedDiv_def unat_div split: if_splits)

section \<open>External calls\<close>

text \<open>What an external call leaves true: a property that does not depend on the native
  balance and that the callee keeps.\<close>

lemma forwardCall_keeps:
  assumes "forwardCall m tgt v callee = (ok, m2)" and "P m"
    and "\<And>x n. P x \<Longrightarrow> P (x\<lparr>nativeBalance := n\<rparr>)"
    and "\<And>x x' r. callee x = (r, x') \<Longrightarrow> P x \<Longrightarrow> P x'"
  shows "P m2"
proof (cases "nativeBalance m < v \<or> tgt = 0")
  case True
  then show ?thesis
    using assms(1-3) by (auto simp: forwardCall_def split: if_splits)
next
  case False
  obtain r x' where c: "callee (m\<lparr>nativeBalance := nativeBalance m - v\<rparr>) = (r, x')"
    by (cases "callee (m\<lparr>nativeBalance := nativeBalance m - v\<rparr>)")
  have "P x'" using assms(4) [OF c] assms(2,3) by blast
  then show ?thesis
    using False c assms(1,2) by (auto simp: forwardCall_def split: if_splits)
qed

lemma tokenCall_keeps:
  assumes "tokenCall m token callee = (ok, m2)" and "P m"
    and "\<And>x x' r. callee x = (r, x') \<Longrightarrow> P x \<Longrightarrow> P x'"
  shows "P m2"
proof (cases "token = 0")
  case True
  then show ?thesis using assms(1,2) by (simp add: tokenCall_def)
next
  case False
  obtain r x' where c: "callee m = (r, x')" by (cases "callee m")
  have "P x'" using assms(3) [OF c] assms(2) by blast
  then show ?thesis
    using False c assms(1,2) by (auto simp: tokenCall_def split: if_splits)
qed

section \<open>The time-lock decided at proposal time\<close>

lemma isLargeTransaction_Inr:
  assumes "isLargeTransaction s v = Inr large"
  shows "large \<longleftrightarrow> assetBalances s 0 \<noteq> 0 \<and> 10 \<le> unat v * 100 div unat (assetBalances s 0)"
proof (cases "assetBalances s 0 = 0")
  case True
  then show ?thesis using assms by (simp add: isLargeTransaction_def)
next
  case False
  with assms obtain product ratio where
    p: "checkedMul v 100 = Inr product" and
    r: "checkedDiv product (assetBalances s 0) = Inr ratio" and
    l: "large \<longleftrightarrow> (10 :: uint256) \<le> ratio"
    by (auto simp: isLargeTransaction_def LARGE_TX_THRESHOLD_def split: sum.splits)
  have "unat ratio = unat v * 100 div unat (assetBalances s 0)"
    using checkedMul_Inr(2) [OF p] checkedDiv_Inr(2) [OF r] by simp
  moreover have "(10 :: uint256) \<le> ratio \<longleftrightarrow> 10 \<le> unat ratio"
    by (simp add: word_le_nat_alt)
  ultimately show ?thesis using l False by simp
qed

lemma proposeAction_Inr:
  assumes "proposeAction kec s sender now tgt payload v atype = Inr (s', actionId)"
  shows "\<exists>large execTime.
           (if 0 < v then isLargeTransaction s v else Inr False) = Inr large
         \<and> (if large then checkedAdd now TIME_LOCK_DELAY else Inr now) = Inr execTime
         \<and> actionId = kec (encodePacked tgt payload v now sender)
         \<and> s' = s\<lparr>pendingActions := (pendingActions s)(actionId :=
                          \<lparr>target = tgt, val = v, proposedAt = now, executionTime = execTime,
                           approvals = 0, executed = False, actionType = atype, data = payload\<rparr>),
                        logs := logs s @ [ActionProposed actionId atype sender]\<rparr>"
  using assms
  by (auto simp: proposeAction_def Let_def split: if_splits sum.splits)

text \<open>
  C4. Whenever \<open>proposeAction\<close> returns, the stored action has \<open>proposedAt\<close> the block
  timestamp and \<open>executionTime\<close> not before it; the two are equal exactly when the native
  ledger balance was 0 or the integer ratio \<open>value * 100 / balance\<close> was below 10, and
  otherwise \<open>executionTime\<close> is \<open>proposedAt\<close> plus 24 hours (in seconds, without wrap-around).
\<close>

theorem proposeAction_timelock:
  assumes "proposeAction kec s sender now tgt payload v atype = Inr (s', actionId)"
  shows "proposedAt (pendingActions s' actionId) = now
       \<and> proposedAt (pendingActions s' actionId) \<le> executionTime (pendingActions s' actionId)
       \<and> (executionTime (pendingActions s' actionId) = proposedAt (pendingActions s' actionId)
            \<longleftrightarrow> assetBalances s 0 = 0 \<or> unat v * 100 div unat (assetBalances s 0) < 10)
       \<and> (assetBalances s 0 \<noteq> 0 \<and> 10 \<le> unat v * 100 div unat (assetBalances s 0)
            \<longrightarrow> unat (executionTime (pendingActions s' actionId))
                  = unat (proposedAt (pendingActions s' actionId)) + 24 * 60 * 60)"
proof -
  from proposeAction_Inr [OF assms] obtain large execTime where
    l: "(if 0 < v then isLargeTransaction s v else Inr False) = Inr large"
    and e: "(if large then checkedAdd now TIME_LOCK_DELAY else Inr now) = Inr execTime"
    and p: "proposedAt (pendingActions s' actionId) = now"
    and x: "executionTime (pendingActions s' actionId) = execTime"
    by auto
  have large_iff: "large \<longleftrightarrow> assetBalances s 0 \<noteq> 0 \<and> 10 \<le> unat v * 100 div unat (assetBalances s 0)"
  proof (cases "0 < v")
    case True
    then show ?thesis using l isLargeTransaction_Inr by simp
  next
    case False
    then have "v = 0" by (simp add: word_gt_0)
    then show ?thesis using l by auto
  qed
  show ?thesis
  proof (cases large)
    case True
    then have "checkedAdd now TIME_LOCK_DELAY = Inr execTime" using e by simp
    then have u: "unat execTime = unat now + 86400"
      using checkedAdd_Inr(2) by (fastforce simp: TIME_LOCK_DELAY_def)
    then have "now \<le> execTime" "execTime \<noteq> now"
      by (auto simp: word_le_nat_alt)
    then show ?thesis using True p x u large_iff by auto
  next
    case False
    then have "execTime = now" using e by simp
    then show ?thesis using False p x large_iff by auto
  qed
qed

lemma deployed_ok:
  "constructor [owner1, owner2, owner3] 2 = Inr (deployed [owner1, owner2, owner3] 2)"
  "constructor [owner1, owner2] 1 = Inr (deployed [owner1, owner2] 1)"
  by (simp_all add: deployed_def constructor_def)

lemma funded_balance: "assetBalances funded 0 = 100"
  by (simp add: funded_def run_defs vault_defs scenario_defs)

lemma largeProposal_eq:
  "proposeAction digest funded owner1 1000 owner3 [] 20 SwapTokens = Inr (fst largeProposal, snd largeProposal)"
  by (simp add: largeProposal_def funded_def run_defs vault_defs scenario_defs)

theorem proposeAction_timelock_witness:
  "proposeAction digest funded owner1 1000 owner3 [] 20 SwapTokens = Inr (fst largeProposal, snd largeProposal)
   \<and> proposedAt (pendingActions (fst largeProposal) (snd largeProposal)) = 1000
   \<and> executionTime (pendingActions (fst largeProposal) (snd largeProposal))
       \<noteq> proposedAt (pendingActions (fst largeProposal) (snd largeProposal))
   \<and> unat (executionTime (pendingActions (fst largeProposal) (snd largeProposal))) = 1000 + 24 * 60 * 60"
  using proposeAction_timelock [OF largeProposal_eq] largeProposal_eq
  by (auto simp: funded_balance)

section \<open>Execution: the checks and a failing forwarded call\<close>

lemma executeChecks_None_iff:
  "executeChecks s now actionId = None \<longleftrightarrow>
     (\<not> entered s \<and> \<not> paused s \<and> proposedAt (pendingActions s actionId) \<noteq> 0
      \<and> \<not> executed (pendingActions s actionId)
      \<and> approvalThreshold s \<le> approvals (pendingActions s actionId)
      \<and> executionTime (pendingActions s actionId) \<le> now
      \<and> (target (pendingActions s actionId) = 0 \<or> approvedStrategies s (target (pendingActions s actionId))))"
  by (auto simp: executeChecks_def Let_def)

lemma approvedStrat_checks: "executeChecks approvedStrat 1000 stratId = None"
  by (simp add: approvedStrat_def stratId_def funded_def run_defs vault_defs scenario_defs)

lemma approvedStrat_action:
  "target (pendingActions approvedStrat stratId) = strategy"
  "val (pendingActions approvedStrat stratId) = 5"
  "approvedStrategies approvedStrat strategy"
  "nativeBalance approvedStrat = 100"
  "assetBalances approvedStrat 0 = 100"
  by (simp_all add: approvedStrat_def stratId_def funded_def run_defs vault_defs scenario_defs)

text \<open>
  C1 (as amended). When every check of \<open>executeAction\<close> passes and the forwarded call fails
  (the account holds less than the action's value, or the target is not the zero address
  and its code reverts), the function reverts with \<open>CallFailed\<close>: nothing of the call is
  committed, neither the \<open>executed\<close> flag nor the debit nor the \<open>ActionExecuted\<close> event, and
  the action can be executed later.
\<close>

theorem executeAction_failed_call_reverts:
  assumes "\<not> entered s" and "\<not> paused s"
    and "proposedAt (pendingActions s actionId) \<noteq> 0"
    and "\<not> executed (pendingActions s actionId)"
    and "approvalThreshold s \<le> approvals (pendingActions s actionId)"
    and "executionTime (pendingActions s actionId) \<le> now"
    and "target (pendingActions s actionId) = 0 \<or> approvedStrategies s (target (pendingActions s actionId))"
    and "nativeBalance s < val (pendingActions s actionId)
         \<or> (target (pendingActions s actionId) \<noteq> 0
             \<and> \<not> fst (callee ((beforeCall s actionId)
                   \<lparr>nativeBalance := nativeBalance s - val (pendingActions s actionId)\<rparr>)))"
  shows "executeAction s now actionId callee = Inl CallFailed
       \<and> (called t = Call_executeAction actionId \<and> timestamp t = now
            \<and> callee = callback kec now (script t) (succeeds t) \<longrightarrow> step kec s t = s)"
proof -
  let ?a = "pendingActions s actionId"
  have c: "executeChecks s now actionId = None"
    using assms(1-7) by (simp add: executeChecks_None_iff)
  have n: "nativeBalance (beforeCall s actionId) = nativeBalance s"
    by (simp add: beforeCall_def)
  have "\<not> fst (forwardCall (beforeCall s actionId) (target ?a) (val ?a) callee)"
    using assms(8) n by (auto simp: forwardCall_def split: prod.splits)
  then obtain m where "forwardCall (beforeCall s actionId) (target ?a) (val ?a) callee = (False, m)"
    by (cases "forwardCall (beforeCall s actionId) (target ?a) (val ?a) callee") auto
  then have "executeAction s now actionId callee = Inl CallFailed"
    using c by (simp add: executeAction_def afterCall_def Let_def)
  then show ?thesis by (auto simp: step_def)
qed

text \<open>The strategy contract is whitelisted and its code reverts.\<close>

theorem executeAction_failed_call_reverts_witness:
  "executeAction approvedStrat 1000 stratId (callback digest 1000 [] False) = Inl CallFailed
   \<and> step digest approvedStrat failingExecute = approvedStrat"
proof -
  have c: "executeChecks approvedStrat 1000 stratId = None"
    by (rule approvedStrat_checks)
  have f: "\<not> fst (callback digest 1000 [] False ((beforeCall approvedStrat stratId)
              \<lparr>nativeBalance := nativeBalance approvedStrat - val (pendingActions approvedStrat stratId)\<rparr>))"
    by (simp add: callback_def)
  have z: "strategy \<noteq> 0" by (simp add: strategy_def)
  show ?thesis
    using executeAction_failed_call_reverts
      [of approvedStrat stratId 1000 "callback digest 1000 [] False" failingExecute digest]
      c f z approvedStrat_action
    by (simp add: executeChecks_None_iff failingExecute_def)
qed

text \<open>The claim as stated fails: the checks pass, the target is a whitelisted contract
  whose code reverts, and the transaction leaves the action not executed, the ledger and
  the event log as they were.\<close>

theorem failed_call_counterexample:
  "executeChecks approvedStrat 1000 stratId = None
   \<and> target (pendingActions approvedStrat stratId) = strategy
   \<and> strategy \<noteq> 0
   \<and> approvedStrategies approvedStrat strategy
   \<and> called failingExecute = Call_executeAction stratId
   \<and> \<not> succeeds failingExecute
   \<and> \<not> executed (pendingActions (step digest approvedStrat failingExecute) stratId)
   \<and> assetBalances (step digest approvedStrat failingExecute) 0 = assetBalances approvedStrat 0
   \<and> logs (step digest approvedStrat failingExecute) = logs approvedStrat"
  by (simp add: failingExecute_def approvedStrat_def stratId_def funded_def run_defs vault_defs
      scenario_defs)

section \<open>Execution towards a target that is not whitelisted\<close>

text \<open>
  C8 (as amended). \<open>executeAction\<close> on an existing action whose target is neither the zero
  address nor whitelisted always reverts, with the error of the first check that fails in
  the order of the source: \<open>UnauthorizedStrategy\<close> only when the action is not executed, has
  enough approvals and its time-lock has expired.
\<close>

theorem executeAction_unlisted_target:
  assumes "proposedAt (pendingActions s actionId) \<noteq> 0"
    and "target (pendingActions s actionId) \<noteq> 0"
    and "\<not> approvedStrategies s (target (pendingActions s actionId))"
  shows "executeAction s now actionId callee =
     Inl (if entered s then ReentrancyGuardReentrantCall
          else if paused s then EnforcedPause
          else if executed (pendingActions s actionId) then ActionAlreadyExecuted
          else if approvals (pendingActions s actionId) < approvalThreshold s then InsufficientApprovals
          else if now < executionTime (pendingActions s actionId) then TimeLockNotExpired
          else UnauthorizedStrategy)"
  using assms by (simp add: executeAction_def executeChecks_def Let_def)

theorem executeAction_unlisted_target_witness:
  "executeAction unlistedApproved 1000 unlistedId noCallee = Inl UnauthorizedStrategy"
  using executeAction_unlisted_target [of unlistedApproved unlistedId 1000 noCallee]
  by (simp add: unlistedApproved_def unlistedProposed_def unlistedId_def funded_def run_defs
      vault_defs scenario_defs)

text \<open>The claim as stated fails: below the threshold the error is \<open>InsufficientApprovals\<close>.\<close>

theorem unlisted_target_counterexample:
  "proposedAt (pendingActions unlistedProposed unlistedId) \<noteq> 0
   \<and> target (pendingActions unlistedProposed unlistedId) = stranger
   \<and> stranger \<noteq> 0
   \<and> \<not> approvedStrategies unlistedProposed stranger
   \<and> executeAction unlistedProposed 1000 unlistedId (callback digest 1000 [] True) = Inl InsufficientApprovals"
  by (simp add: unlistedProposed_def unlistedId_def funded_def run_defs vault_defs scenario_defs)

section \<open>Deposits of zero\<close>

text \<open>
  C9 (as amended). A deposit of 0 through \<open>deposit\<close> or \<open>depositBNB\<close> always reverts, with
  \<open>InsufficientBalance\<close> when the vault is neither paused nor re-entered (the contract
  declares no error named InvalidAmount), and the transaction leaves the storage as it was;
  both functions return only for an amount above 0.
\<close>

theorem zero_deposit_rejected:
  "deposit s sender token 0 callee =
      Inl (if entered s then ReentrancyGuardReentrantCall else if paused s then EnforcedPause else InsufficientBalance)
   \<and> depositBNB s sender 0 =
      Inl (if entered s then ReentrancyGuardReentrantCall else if paused s then EnforcedPause else InsufficientBalance)
   \<and> step kec s (t\<lparr>called := Call_deposit token 0\<rparr>) = s
   \<and> step kec s (t\<lparr>called := Call_depositBNB 0\<rparr>) = s
   \<and> (deposit s sender token amt callee = Inr s' \<longrightarrow> 0 < amt)
   \<and> (depositBNB s sender amt = Inr s' \<longrightarrow> 0 < amt)"
  by (auto simp: step_def deposit_def depositBNB_def word_gt_0 split: if_splits prod.splits)

theorem zero_deposit_rejected_witness:
  "deposit funded owner1 0xA1 0 (callback digest 1000 [] True) = Inl InsufficientBalance
   \<and> depositBNB funded owner1 0 = Inl InsufficientBalance
   \<and> depositBNB funded owner1 7 = Inr (step digest funded (mkTx owner1 1000 (Call_depositBNB 7)))
   \<and> assetBalances (step digest funded (mkTx owner1 1000 (Call_depositBNB 0))) 0 = assetBalances funded 0"
  using zero_deposit_rejected [of funded owner1 "0xA1" "callback digest 1000 [] True" digest
      "mkTx owner1 1000 (Call_depositBNB 0)" 7 "step digest funded (mkTx owner1 1000 (Call_depositBNB 7))"]
  by (simp add: funded_def run_defs vault_defs scenario_defs)

text \<open>The claim as stated fails: the error of a zero deposit is \<open>InsufficientBalance\<close>, the
  one an overdrawn withdrawal gives.\<close>

theorem zero_deposit_counterexample:
  "depositBNB funded owner1 0 = Inl InsufficientBalance
   \<and> deposit funded owner1 0xA1 0 (callback digest 1000 [] True) = Inl InsufficientBalance
   \<and> emergencyWithdraw funded owner1 0 owner3 101 (callback digest 1000 [] True) = Inl InsufficientBalance"
  by (simp add: funded_def run_defs vault_defs scenario_defs)

section \<open>The unchecked debit of execution\<close>







section \<open>Approvals are never withdrawn\<close>

lemma invoke_keeps_approval:
  assumes "invoke kec s a now callee c = Inr s'"
    and "actionApprovals s actionId who"
    and "\<And>m m' ok. callee m = (ok, m') \<Longrightarrow> actionApprovals m actionId who \<Longrightarrow> actionApprovals m' actionId who"
  shows "actionApprovals s' actionId who"
proof (cases c)
  case (Call_executeAction x)
  let ?f = "forwardCall (beforeCall s x) (target (pendingActions s x)) (val (pendingActions s x)) callee"
  obtain ok s2 where r: "?f = (ok, s2)" by (cases ?f)
  with Call_executeAction assms(1) have s': "afterCall x (ok, s2) = Inr s'"
    by (auto simp: executeAction_def split: option.splits)
  have "actionApprovals (beforeCall s x) actionId who"
    using assms(2) by (simp add: beforeCall_def)
  then have "actionApprovals s2 actionId who"
    by (rule forwardCall_keeps [OF r]) (simp, rule assms(3))
  then show ?thesis using s' by (auto simp: afterCall_def Let_def split: if_splits)
next
  case (Call_deposit token amt)
  let ?f = "tokenCall (s\<lparr>entered := True\<rparr>) token callee"
  obtain ok s2 where r: "?f = (ok, s2)" by (cases ?f)
  with Call_deposit assms(1) have
    s': "s' = s2\<lparr>assetBalances := (assetBalances s2)(token := assetBalances s2 token + amt),
                     logs := logs s2 @ [Deposit token amt a], entered := False\<rparr>"
    by (auto simp: deposit_def split: if_splits)
  have "actionApprovals (s\<lparr>entered := True\<rparr>) actionId who" using assms(2) by simp
  then have "actionApprovals s2 actionId who"
    by (rule tokenCall_keeps [OF r]) (rule assms(3))
  then show ?thesis using s' by simp
next
  case (Call_emergencyWithdraw token to amt)
  let ?m = "s\<lparr>entered := True, assetBalances := (assetBalances s)(token := assetBalances s token - amt)\<rparr>"
  let ?f = "if token = 0 then forwardCall ?m to amt callee else tokenCall ?m token callee"
  obtain ok s2 where r: "?f = (ok, s2)" by (cases ?f)
  with Call_emergencyWithdraw assms(1) have
    s': "s' = s2\<lparr>logs := logs s2 @ [EmergencyWithdraw token to amt], entered := False\<rparr>"
    by (auto simp: emergencyWithdraw_def Let_def split: if_splits)
  have m: "actionApprovals ?m actionId who" using assms(2) by simp
  have "actionApprovals s2 actionId who"
  proof (cases "token = 0")
    case True
    then have "forwardCall ?m to amt callee = (ok, s2)" using r by simp
    then show ?thesis using m by (rule forwardCall_keeps) (simp, rule assms(3))
  next
    case False
    then have "tokenCall ?m token callee = (ok, s2)" using r by simp
    then show ?thesis using m by (rule tokenCall_keeps) (rule assms(3))
  qed
  then show ?thesis using s' by simp
qed (use assms(1,2) in \<open>auto simp: vault_defs split: call_splits\<close>)

lemma reenter_keeps_approval:
  assumes "actionApprovals s actionId who"
  shows "actionApprovals (reenter kec now s c) actionId who"
proof (cases "invoke kec s (fst c) now noCallee (snd c)")
  case (Inl e)
  then show ?thesis using assms by (simp add: reenter_def)
next
  case (Inr s')
  have "actionApprovals s' actionId who"
    by (rule invoke_keeps_approval [OF Inr assms]) (simp add: noCallee_def)
  then show ?thesis using Inr by (simp add: reenter_def)
qed

lemma foldl_reenter_keeps_approval:
  "actionApprovals s actionId who \<Longrightarrow> actionApprovals (foldl (reenter kec now) s sc) actionId who"
  by (induction sc arbitrary: s) (simp_all add: reenter_keeps_approval)

lemma callback_keeps_approval:
  assumes "callback kec now sc ok m = (ok', m')" and "actionApprovals m actionId who"
  shows "actionApprovals m' actionId who"
  using assms by (auto simp: callback_def foldl_reenter_keeps_approval split: if_splits)

lemma step_keeps_approval:
  assumes "actionApprovals s actionId who"
  shows "actionApprovals (step kec s t) actionId who"
proof (cases "invoke kec s (origin t) (timestamp t) (callback kec (timestamp t) (script t) (succeeds t)) (called t)")
  case (Inl e)
  then show ?thesis using assms by (simp add: step_def)
next
  case (Inr s')
  have "actionApprovals s' actionId who"
    by (rule invoke_keeps_approval [OF Inr assms]) (rule callback_keeps_approval)
  then show ?thesis using Inr by (simp add: step_def)
qed

lemma run_keeps_approval:
  "actionApprovals s actionId who \<Longrightarrow> actionApprovals (run kec s ts) actionId who"
  unfolding run_def by (induction ts arbitrary: s) (simp_all add: step_keeps_approval)

lemma approveAction_Inr:
  assumes "approveAction s who actionId = Inr s'"
  shows "actionApprovals s' actionId who"
    and "approvals (pendingActions s' actionId) = approvals (pendingActions s actionId) + 1"
  using assms by (auto simp: approveAction_def Let_def split: if_splits)

text \<open>
  C5. After an approval by \<open>who\<close> on \<open>actionId\<close> has succeeded, and after any
  transactions whatever, a further \<open>approveAction\<close> by \<open>who\<close> on \<open>actionId\<close> (still an
  owner, the action existing and not executed) reverts with \<open>AlreadyApproved\<close>; the
  transaction leaves the storage as it was, approval count and approver set included. The
  first approval raised the count by one.
\<close>

theorem second_approve_rejected:
  assumes "approveAction s who actionId = Inr s1"
    and "hasRole (run kec s1 ts) OWNER_ROLE who"
    and "proposedAt (pendingActions (run kec s1 ts) actionId) \<noteq> 0"
    and "\<not> executed (pendingActions (run kec s1 ts) actionId)"
    and "called t = Call_approveAction actionId" and "origin t = who"
  shows "approveAction (run kec s1 ts) who actionId = Inl AlreadyApproved
       \<and> step kec (run kec s1 ts) t = run kec s1 ts
       \<and> approvals (pendingActions s1 actionId) = approvals (pendingActions s actionId) + 1"
proof -
  have "actionApprovals s1 actionId who"
    using assms(1) by (rule approveAction_Inr(1))
  then have "actionApprovals (run kec s1 ts) actionId who"
    by (rule run_keeps_approval)
  then have "approveAction (run kec s1 ts) who actionId = Inl AlreadyApproved"
    using assms(2-4) by (simp add: approveAction_def Let_def)
  then show ?thesis
    using assms(5,6) approveAction_Inr(2) [OF assms(1)] by (simp add: step_def)
qed


theorem second_approve_rejected_witness:
  "approveAction proposedSmall owner1 smallId = Inr approvedOnce
   \<and> approvals (pendingActions approvedOnce smallId) = 1
   \<and> approveAction (run digest approvedOnce [mkTx owner2 1000 (Call_approveAction smallId)]) owner1 smallId
        = Inl AlreadyApproved
   \<and> approvals (pendingActions
        (step digest (run digest approvedOnce [mkTx owner2 1000 (Call_approveAction smallId)])
           (mkTx owner1 1001 (Call_approveAction smallId))) smallId) = 2"
proof -
  have a: "approveAction proposedSmall owner1 smallId = Inr approvedOnce"
    by (simp add: approvedOnce_def proposedSmall_def smallId_def funded_def run_defs vault_defs scenario_defs)
  have b: "approvals (pendingActions approvedOnce smallId) = 1"
    "hasRole (run digest approvedOnce [mkTx owner2 1000 (Call_approveAction smallId)]) OWNER_ROLE owner1"
    "proposedAt (pendingActions (run digest approvedOnce [mkTx owner2 1000 (Call_approveAction smallId)]) smallId) \<noteq> 0"
    "\<not> executed (pendingActions (run digest approvedOnce [mkTx owner2 1000 (Call_approveAction smallId)]) smallId)"
    "approvals (pendingActions (run digest approvedOnce [mkTx owner2 1000 (Call_approveAction smallId)]) smallId) = 2"
    by (simp_all add: approvedOnce_def proposedSmall_def smallId_def funded_def run_defs vault_defs scenario_defs)
  have c: "called (mkTx owner1 1001 (Call_approveAction smallId)) = Call_approveAction smallId"
    "origin (mkTx owner1 1001 (Call_approveAction smallId)) = owner1"
    by (simp_all add: mkTx_def)
  show ?thesis
    using second_approve_rejected [OF a b(2) b(3) b(4) c] a b(1) b(5) by simp
qed

section \<open>The reentrancy guard during an external call\<close>

lemma forwardSite_entered: "forwardSite m tgt v = Some x \<Longrightarrow> entered m \<Longrightarrow> entered x"
  by (auto simp: forwardSite_def split: if_splits)

lemma tokenSite_entered: "tokenSite m token = Some x \<Longrightarrow> entered m \<Longrightarrow> entered x"
  by (auto simp: tokenSite_def split: if_splits)

lemma handover_entered:
  assumes "handover s a now c = Some m"
  shows "entered m"
proof (cases c)
  case (Call_executeAction x)
  with assms have "forwardSite (beforeCall s x) (target (pendingActions s x)) (val (pendingActions s x)) = Some m"
    by (auto simp: handover_def split: option.splits)
  then show ?thesis by (rule forwardSite_entered) (simp add: beforeCall_def)
next
  case (Call_deposit token amt)
  with assms have "tokenSite (s\<lparr>entered := True\<rparr>) token = Some m"
    by (auto simp: handover_def split: if_splits)
  then show ?thesis by (rule tokenSite_entered) simp
next
  case (Call_emergencyWithdraw token to amt)
  let ?m = "s\<lparr>entered := True, assetBalances := (assetBalances s)(token := assetBalances s token - amt)\<rparr>"
  from Call_emergencyWithdraw assms have "forwardSite ?m to amt = Some m \<or> tokenSite ?m token = Some m"
    by (auto simp: handover_def split: if_splits)
  then show ?thesis
    using forwardSite_entered [of ?m to amt m] tokenSite_entered [of ?m token m] by auto
qed (use assms in \<open>simp_all add: handover_def\<close>)

text \<open>The environment is consulted in the state \<open>handover\<close> gives, and nowhere else.\<close>

lemma forwardCall_site:
  assumes "\<And>x. forwardSite m tgt v = Some x \<Longrightarrow> callee x = callee' x"
  shows "forwardCall m tgt v callee = forwardCall m tgt v callee'"
  using assms by (auto simp: forwardCall_def forwardSite_def split: if_splits)

lemma tokenCall_site:
  assumes "\<And>x. tokenSite m token = Some x \<Longrightarrow> callee x = callee' x"
  shows "tokenCall m token callee = tokenCall m token callee'"
  using assms by (auto simp: tokenCall_def tokenSite_def split: if_splits)

lemma invoke_handover:
  assumes "\<And>m. handover s a now c = Some m \<Longrightarrow> callee m = callee' m"
  shows "invoke kec s a now callee c = invoke kec s a now callee' c"
proof (cases c)
  case (Call_executeAction x)
  show ?thesis
  proof (cases "executeChecks s now x")
    case None
    then have "forwardCall (beforeCall s x) (target (pendingActions s x)) (val (pendingActions s x)) callee
             = forwardCall (beforeCall s x) (target (pendingActions s x)) (val (pendingActions s x)) callee'"
      using assms Call_executeAction by (intro forwardCall_site) (simp add: handover_def)
    then show ?thesis using Call_executeAction None by (simp add: executeAction_def)
  next
    case (Some e)
    then show ?thesis using Call_executeAction by (simp add: executeAction_def)
  qed
next
  case (Call_deposit token amt)
  show ?thesis
  proof (cases "entered s \<or> paused s \<or> amt = 0")
    case True
    then show ?thesis using Call_deposit by (auto simp: deposit_def)
  next
    case False
    then have "tokenCall (s\<lparr>entered := True\<rparr>) token callee = tokenCall (s\<lparr>entered := True\<rparr>) token callee'"
      using assms Call_deposit by (intro tokenCall_site) (simp add: handover_def)
    then show ?thesis using Call_deposit by (simp add: deposit_def)
  qed
next
  case (Call_emergencyWithdraw token to amt)
  let ?m = "s\<lparr>entered := True, assetBalances := (assetBalances s)(token := assetBalances s token - amt)\<rparr>"
  show ?thesis
  proof (cases "entered s \<or> \<not> hasRole s OWNER_ROLE a \<or> assetBalances s token < amt")
    case True
    then show ?thesis using Call_emergencyWithdraw by (auto simp: emergencyWithdraw_def)
  next
    case False
    have "forwardCall ?m to amt callee = forwardCall ?m to amt callee'" if "token = 0"
      using assms Call_emergencyWithdraw False that by (intro forwardCall_site) (simp add: handover_def)
    moreover have "tokenCall ?m token callee = tokenCall ?m token callee'" if "token \<noteq> 0"
      using assms Call_emergencyWithdraw False that by (intro tokenCall_site) (simp add: handover_def)
    ultimately show ?thesis
      using Call_emergencyWithdraw by (simp add: emergencyWithdraw_def Let_def)
  qed
qed simp_all

lemma reenter_keeps_entered:
  assumes "entered m"
  shows "entered (reenter kec now m c)"
proof (cases "invoke kec m (fst c) now noCallee (snd c)")
  case (Inl e)
  then show ?thesis using assms by (simp add: reenter_def)
next
  case (Inr m')
  then have "entered m'"
    using assms by (cases "snd c") (auto simp: vault_defs split: call_splits)
  then show ?thesis using Inr by (simp add: reenter_def)
qed

lemma foldl_reenter_keeps_entered:
  "entered m \<Longrightarrow> entered (foldl (reenter kec now) m sc)"
  by (induction sc arbitrary: m) (simp_all add: reenter_keeps_entered)

lemma duringCall_entered: "entered m \<Longrightarrow> entered (duringCall kec now m sc k)"
  by (simp add: duringCall_def foldl_reenter_keeps_entered)

lemma entered_execute_rejected:
  assumes "entered m"
  shows "executeAction m now actionId callee = Inl ReentrancyGuardReentrantCall"
    and "reenter kec now m (a, Call_executeAction actionId) = m"
  using assms by (simp_all add: executeAction_def executeChecks_def reenter_def Let_def)

section \<open>An executed action stays executed\<close>

lemma invoke_keeps_executed:
  assumes "invoke kec s a now callee c = Inr s'"
    and "isExecuted s actionId"
    and "\<not> proposes kec actionId now (a, c)"
    and "\<And>m m' ok. callee m = (ok, m') \<Longrightarrow> isExecuted m actionId \<Longrightarrow> isExecuted m' actionId"
  shows "isExecuted s' actionId"
proof (cases c)
  case (Call_executeAction x)
  let ?f = "forwardCall (beforeCall s x) (target (pendingActions s x)) (val (pendingActions s x)) callee"
  obtain ok s2 where r: "?f = (ok, s2)" by (cases ?f)
  with Call_executeAction assms(1) have s': "afterCall x (ok, s2) = Inr s'"
    by (auto simp: executeAction_def split: option.splits)
  have "isExecuted (beforeCall s x) actionId"
    using assms(2) by (auto simp: beforeCall_def isExecuted_def)
  then have "isExecuted s2 actionId"
    by (rule forwardCall_keeps [OF r]) (simp add: isExecuted_def, rule assms(4))
  then show ?thesis using s' by (auto simp: afterCall_def isExecuted_def Let_def split: if_splits)
next
  case (Call_deposit token amt)
  let ?f = "tokenCall (s\<lparr>entered := True\<rparr>) token callee"
  obtain ok s2 where r: "?f = (ok, s2)" by (cases ?f)
  with Call_deposit assms(1) have
    s': "s' = s2\<lparr>assetBalances := (assetBalances s2)(token := assetBalances s2 token + amt),
                     logs := logs s2 @ [Deposit token amt a], entered := False\<rparr>"
    by (auto simp: deposit_def split: if_splits)
  have "isExecuted (s\<lparr>entered := True\<rparr>) actionId" using assms(2) by (simp add: isExecuted_def)
  then have "isExecuted s2 actionId"
    by (rule tokenCall_keeps [OF r]) (rule assms(4))
  then show ?thesis using s' by (simp add: isExecuted_def)
next
  case (Call_emergencyWithdraw token to amt)
  let ?m = "s\<lparr>entered := True, assetBalances := (assetBalances s)(token := assetBalances s token - amt)\<rparr>"
  let ?f = "if token = 0 then forwardCall ?m to amt callee else tokenCall ?m token callee"
  obtain ok s2 where r: "?f = (ok, s2)" by (cases ?f)
  with Call_emergencyWithdraw assms(1) have
    s': "s' = s2\<lparr>logs := logs s2 @ [EmergencyWithdraw token to amt], entered := False\<rparr>"
    by (auto simp: emergencyWithdraw_def Let_def split: if_splits)
  have m: "isExecuted ?m actionId" using assms(2) by (simp add: isExecuted_def)
  have "isExecuted s2 actionId"
  proof (cases "token = 0")
    case True
    then have "forwardCall ?m to amt callee = (ok, s2)" using r by simp
    then show ?thesis using m by (rule forwardCall_keeps) (simp add: isExecuted_def, rule assms(4))
  next
    case False
    then have "tokenCall ?m token callee = (ok, s2)" using r by simp
    then show ?thesis using m by (rule tokenCall_keeps) (rule assms(4))
  qed
  then show ?thesis using s' by (simp add: isExecuted_def)
next
  case (Call_proposeAction tgt payload v atype)
  then have ne: "kec (encodePacked tgt payload v now a) \<noteq> actionId"
    using assms(3) by (simp add: proposes_def)
  from Call_proposeAction assms(1) obtain r where
    p: "proposeAction kec s a now tgt payload v atype = Inr r" and s': "s' = fst r"
    by (auto split: sum.splits)
  from proposeAction_Inr [of kec s a now tgt payload v atype "fst r" "snd r"] p
  have "pendingActions s' actionId = pendingActions s actionId"
    using ne s' by auto
  then show ?thesis using assms(2) by (simp add: isExecuted_def)
qed (use assms(1,2) in \<open>auto simp: vault_defs isExecuted_def split: call_splits\<close>)

lemma reenter_keeps_executed:
  assumes "isExecuted s actionId" and "\<not> proposes kec actionId now c"
  shows "isExecuted (reenter kec now s c) actionId"
proof (cases "invoke kec s (fst c) now noCallee (snd c)")
  case (Inl e)
  then show ?thesis using assms by (simp add: reenter_def)
next
  case (Inr s')
  have "isExecuted s' actionId"
    by (rule invoke_keeps_executed [OF Inr assms(1)]) (use assms(2) in \<open>simp_all add: noCallee_def\<close>)
  then show ?thesis using Inr by (simp add: reenter_def)
qed

lemma foldl_reenter_keeps_executed:
  "isExecuted s actionId \<Longrightarrow> \<not> list_ex (proposes kec actionId now) sc
     \<Longrightarrow> isExecuted (foldl (reenter kec now) s sc) actionId"
  by (induction sc arbitrary: s) (simp_all add: reenter_keeps_executed)

lemma callback_keeps_executed:
  assumes "callback kec now sc ok m = (ok', m')" and "isExecuted m actionId"
    and "\<not> list_ex (proposes kec actionId now) sc"
  shows "isExecuted m' actionId"
  using assms by (auto simp: callback_def foldl_reenter_keeps_executed split: if_splits)

lemma step_keeps_executed:
  assumes "isExecuted s actionId" and "\<not> txProposes kec actionId t"
  shows "isExecuted (step kec s t) actionId"
proof (cases "invoke kec s (origin t) (timestamp t) (callback kec (timestamp t) (script t) (succeeds t)) (called t)")
  case (Inl e)
  then show ?thesis using assms by (simp add: step_def)
next
  case (Inr s')
  have "isExecuted s' actionId"
  proof (rule invoke_keeps_executed [OF Inr assms(1)])
    show "\<not> proposes kec actionId (timestamp t) (origin t, called t)"
      using assms(2) by (simp add: txProposes_def)
  next
    fix m m' ok
    assume "callback kec (timestamp t) (script t) (succeeds t) m = (ok, m')" "isExecuted m actionId"
    then show "isExecuted m' actionId"
      using assms(2) callback_keeps_executed by (simp add: txProposes_def)
  qed
  then show ?thesis using Inr by (simp add: step_def)
qed

lemma run_keeps_executed:
  "isExecuted s actionId \<Longrightarrow> \<not> list_ex (txProposes kec actionId) ts \<Longrightarrow> isExecuted (run kec s ts) actionId"
  unfolding run_def by (induction ts arbitrary: s) (simp_all add: step_keeps_executed)

lemma invoke_not_entered:
  assumes "invoke kec s a now callee c = Inr s'" and "\<not> entered s"
  shows "\<not> entered s'"
  using assms by (cases c) (auto simp: vault_defs split: call_splits)

lemma step_not_entered: "\<not> entered s \<Longrightarrow> \<not> entered (step kec s t)"
  by (cases "invoke kec s (origin t) (timestamp t) (callback kec (timestamp t) (script t) (succeeds t)) (called t)")
     (auto simp: step_def dest: invoke_not_entered)

lemma run_not_entered: "\<not> entered s \<Longrightarrow> \<not> entered (run kec s ts)"
  unfolding run_def by (induction ts arbitrary: s) (simp_all add: step_not_entered)

lemma executeAction_Inr:
  assumes "executeAction s now actionId (callback kec now sc ok) = Inr s1"
    and "\<not> list_ex (proposes kec actionId now) sc"
  shows "isExecuted s1 actionId" and "\<not> entered s1"
proof -
  let ?f = "forwardCall (beforeCall s actionId) (target (pendingActions s actionId))
              (val (pendingActions s actionId)) (callback kec now sc ok)"
  obtain ok' m where r: "?f = (ok', m)" by (cases ?f)
  from assms(1) r have c: "executeChecks s now actionId = None"
    and a: "afterCall actionId (ok', m) = Inr s1"
    by (auto simp: executeAction_def split: option.splits)
  have "isExecuted (beforeCall s actionId) actionId"
    using c by (simp add: executeChecks_None_iff beforeCall_def isExecuted_def)
  then have "isExecuted m actionId"
  proof (rule forwardCall_keeps [OF r])
    fix x x' r'
    assume "callback kec now sc ok x = (r', x')" "isExecuted x actionId"
    then show "isExecuted x' actionId"
      using assms(2) by (rule callback_keeps_executed)
  qed (simp add: isExecuted_def)
  then show "isExecuted s1 actionId"
    using a by (auto simp: afterCall_def isExecuted_def Let_def split: if_splits)
  show "\<not> entered s1"
    using a by (auto simp: afterCall_def Let_def split: if_splits)
qed

text \<open>
  C2 (as amended). After \<open>executeAction\<close> has returned for \<open>actionId\<close>, provided no call of
  \<open>proposeAction\<close> yields the same identifier, neither from inside the forwarded call of
  that execution nor in any later transaction or its callee: every later \<open>executeAction\<close>
  on \<open>actionId\<close> reverts and leaves the storage as it was. A transaction of its own
  reverts with \<open>ActionAlreadyExecuted\<close> when the vault is not paused and with
  \<open>EnforcedPause\<close> when it is; a call made from inside an external call of a later
  transaction, at any point of it, reverts with \<open>ReentrancyGuardReentrantCall\<close>.
\<close>

theorem executed_action_stays_executed:
  assumes "executeAction s now actionId (callback kec now sc ok) = Inr s1"
    and "\<not> list_ex (proposes kec actionId now) sc"
    and "\<not> list_ex (txProposes kec actionId) ts"
  shows "executeAction (run kec s1 ts) now' actionId callee
           = Inl (if paused (run kec s1 ts) then EnforcedPause else ActionAlreadyExecuted)
       \<and> step kec (run kec s1 ts) (t\<lparr>called := Call_executeAction actionId\<rparr>) = run kec s1 ts
       \<and> (handover (run kec s1 ts) a now' c = Some m \<longrightarrow>
            executeAction (duringCall kec now' m sc' k) now' actionId callee
              = Inl ReentrancyGuardReentrantCall
          \<and> reenter kec now' (duringCall kec now' m sc' k) (b, Call_executeAction actionId)
              = duringCall kec now' m sc' k)"
proof -
  have "isExecuted (run kec s1 ts) actionId"
    using executeAction_Inr(1) [OF assms(1,2)] assms(3) by (rule run_keeps_executed)
  moreover have "\<not> entered (run kec s1 ts)"
    using executeAction_Inr(2) [OF assms(1,2)] by (rule run_not_entered)
  ultimately have top: "\<And>now' callee. executeAction (run kec s1 ts) now' actionId callee
           = Inl (if paused (run kec s1 ts) then EnforcedPause else ActionAlreadyExecuted)"
    by (simp add: executeAction_def executeChecks_def isExecuted_def Let_def)
  have inner: "executeAction (duringCall kec now' m sc' k) now' actionId callee
              = Inl ReentrancyGuardReentrantCall
          \<and> reenter kec now' (duringCall kec now' m sc' k) (b, Call_executeAction actionId)
              = duringCall kec now' m sc' k"
    if "handover (run kec s1 ts) a now' c = Some m"
  proof -
    have "entered (duringCall kec now' m sc' k)"
      using handover_entered [OF that] by (rule duringCall_entered)
    then show ?thesis by (simp add: entered_execute_rejected)
  qed
  show ?thesis using top inner by (simp add: step_def)
qed

lemma executedSmall_eq:
  "executeAction approvedSmall 1000 smallId (callback digest 1000 [] True) = Inr executedSmall"
  by (simp add: executedSmall_def approvedSmall_def smallId_def run_defs vault_defs scenario_defs)

text \<open>After the execution and a further deposit: an execution sent as a transaction, and
  one made by a token from inside \<open>deposit\<close>.\<close>

theorem executed_action_stays_executed_witness:
  "executeAction approvedSmall 1000 smallId (callback digest 1000 [] True) = Inr executedSmall
   \<and> executeAction (run digest executedSmall [mkTx owner2 1001 (Call_depositBNB 1)]) 1002 smallId noCallee
        = Inl ActionAlreadyExecuted
   \<and> step digest (run digest executedSmall [mkTx owner2 1001 (Call_depositBNB 1)])
          (mkTx stranger 1002 (Call_executeAction smallId))
        = run digest executedSmall [mkTx owner2 1001 (Call_depositBNB 1)]
   \<and> handover (run digest executedSmall [mkTx owner2 1001 (Call_depositBNB 1)]) owner1 1002 (Call_deposit 0xA1 7)
        = Some ((run digest executedSmall [mkTx owner2 1001 (Call_depositBNB 1)])\<lparr>entered := True\<rparr>)
   \<and> executeAction
        (duringCall digest 1002 ((run digest executedSmall [mkTx owner2 1001 (Call_depositBNB 1)])\<lparr>entered := True\<rparr>)
           [(stranger, Call_receive 0)] 1) 1002 smallId noCallee
        = Inl ReentrancyGuardReentrantCall"
proof -
  let ?s = "run digest executedSmall [mkTx owner2 1001 (Call_depositBNB 1)]"
  have n: "\<not> list_ex (proposes digest smallId 1000) []"
    "\<not> list_ex (txProposes digest smallId) [mkTx owner2 1001 (Call_depositBNB 1)]"
    by (simp_all add: txProposes_def proposes_def mkTx_def)
  have p: "\<not> paused ?s" "\<not> entered ?s"
    by (simp_all add: executedSmall_def approvedSmall_def smallId_def run_defs vault_defs scenario_defs)
  have h: "handover ?s owner1 1002 (Call_deposit 0xA1 7) = Some (?s\<lparr>entered := True\<rparr>)"
    using p by (simp add: handover_def tokenSite_def)
  show ?thesis
    using executed_action_stays_executed [OF executedSmall_eq n, of 1002 noCallee
        "mkTx stranger 1002 (Call_executeAction smallId)" owner1 "Call_deposit 0xA1 7"
        "?s\<lparr>entered := True\<rparr>" "[(stranger, Call_receive 0)]" 1 stranger]
      executedSmall_eq p h
    by (simp add: mkTx_def)
qed

text \<open>The claim as stated fails: once the vault is paused the error is \<open>EnforcedPause\<close>,
  and from inside the token call of a later \<open>deposit\<close> it is that of the guard;
  an action proposed again in the same block, which yields the same identifier, is
  executed a second time; and so is an action that its own target proposes again from
  inside the forwarded call, after which the first execution has returned with the action
  not executed.\<close>

theorem execute_twice_counterexample:
  "isExecuted executedSmall smallId
   \<and> executeAction pausedAfter 1002 smallId noCallee = Inl EnforcedPause
   \<and> isExecuted soloExecuted soloId
   \<and> \<not> isl (executeAction soloAgain 1000 soloId (callback digest 1000 [] True))
   \<and> filter (\<lambda>e. e = ActionExecuted soloId True)
        (logs (step digest soloAgain (mkTx stranger 1000 (Call_executeAction soloId))))
      = [ActionExecuted soloId True, ActionExecuted soloId True]
   \<and> handover executedSmall owner1 1001 (Call_deposit 0xA1 7) = Some (executedSmall\<lparr>entered := True\<rparr>)
   \<and> executeAction (executedSmall\<lparr>entered := True\<rparr>) 1001 smallId noCallee
        = Inl ReentrancyGuardReentrantCall
   \<and> \<not> isl (executeAction agentApproved 1000 agentId
              (callback digest 1000 (script agentExecute) (succeeds agentExecute)))
   \<and> \<not> isExecuted (step digest agentApproved agentExecute) agentId
   \<and> filter (\<lambda>e. e = ActionExecuted agentId True)
        (logs (step digest agentAgain (mkTx stranger 1000 (Call_executeAction agentId))))
      = [ActionExecuted agentId True, ActionExecuted agentId True]"
  by (simp add: isExecuted_def pausedAfter_def executedSmall_def approvedSmall_def smallId_def
      soloAgain_def soloExecuted_def soloId_def agentAgain_def agentApproved_def agentExecute_def
      agentId_def handover_def tokenSite_def run_defs vault_defs scenario_defs)

section \<open>The identifier of a proposal\<close>

text \<open>
  C6. The code at a failing input: the action of \<open>smallId\<close> stands executed with two
  approvals; the same sender proposes the same target, payload and value again in the same
  block, with another category. \<open>proposeAction\<close> returns the same identifier and the stored
  action is replaced: not executed, no approvals, the new category.
\<close>

theorem proposeAction_overwrites_executed_action:
  "executed (pendingActions executedSmall smallId)
   \<and> approvals (pendingActions executedSmall smallId) = 2
   \<and> actionType (pendingActions executedSmall smallId) = SwapTokens
   \<and> proposeAction digest executedSmall owner1 1000 0 [] 5 Rebalance = Inr (reproposed, smallId)
   \<and> \<not> executed (pendingActions reproposed smallId)
   \<and> approvals (pendingActions reproposed smallId) = 0
   \<and> actionType (pendingActions reproposed smallId) = Rebalance"
  by (simp add: reproposed_def executedSmall_def approvedSmall_def smallId_def
      run_defs vault_defs scenario_defs)

section \<open>The order of effects and forwarded call in execution\<close>

lemma approvedStrat_handover:
  "handover approvedStrat stranger 1000 (Call_executeAction stratId)
     = Some ((beforeCall approvedStrat stratId)\<lparr>nativeBalance := 95\<rparr>)"
  using approvedStrat_checks approvedStrat_action
  by (simp add: handover_def forwardSite_def beforeCall_def strategy_def)

text \<open>
  C3 (as amended). When every check of \<open>executeAction\<close> passes, the action is marked
  executed in the storage with which the call is forwarded, and the code of the target
  starts in a state where it is so marked. The reentrancy guard is set there and stays
  set at every point of the forwarded call, whatever calls the target has made back into
  the vault: an \<open>executeAction\<close> made from inside the forwarded call, on this or any other
  identifier, reverts with \<open>ReentrancyGuardReentrantCall\<close> and changes nothing.
\<close>

theorem executeAction_marks_before_call:
  assumes "\<not> entered s" and "\<not> paused s"
    and "proposedAt (pendingActions s actionId) \<noteq> 0"
    and "\<not> executed (pendingActions s actionId)"
    and "approvalThreshold s \<le> approvals (pendingActions s actionId)"
    and "executionTime (pendingActions s actionId) \<le> now"
    and "target (pendingActions s actionId) = 0 \<or> approvedStrategies s (target (pendingActions s actionId))"
  shows "executeAction s now actionId callee
           = afterCall actionId (forwardCall (beforeCall s actionId) (target (pendingActions s actionId))
               (val (pendingActions s actionId)) callee)
       \<and> executed (pendingActions (beforeCall s actionId) actionId)
       \<and> (handover s a now (Call_executeAction actionId) = Some m \<longrightarrow>
            executed (pendingActions m actionId)
          \<and> entered (duringCall kec now m sc k)
          \<and> executeAction (duringCall kec now m sc k) now' anyId callee' = Inl ReentrancyGuardReentrantCall
          \<and> reenter kec now (duringCall kec now m sc k) (b, Call_executeAction anyId)
              = duringCall kec now m sc k)"
proof -
  have c: "executeChecks s now actionId = None"
    using assms by (simp add: executeChecks_None_iff)
  then have "executeAction s now actionId callee
           = afterCall actionId (forwardCall (beforeCall s actionId) (target (pendingActions s actionId))
               (val (pendingActions s actionId)) callee)"
    by (simp add: executeAction_def)
  moreover have "executed (pendingActions (beforeCall s actionId) actionId)"
    by (simp add: beforeCall_def)
  moreover have "executed (pendingActions m actionId)
          \<and> entered (duringCall kec now m sc k)
          \<and> executeAction (duringCall kec now m sc k) now' anyId callee' = Inl ReentrancyGuardReentrantCall
          \<and> reenter kec now (duringCall kec now m sc k) (b, Call_executeAction anyId)
              = duringCall kec now m sc k"
    if h: "handover s a now (Call_executeAction actionId) = Some m"
  proof -
    have "forwardSite (beforeCall s actionId) (target (pendingActions s actionId))
            (val (pendingActions s actionId)) = Some m"
      using h c by (simp add: handover_def)
    then have "pendingActions m = pendingActions (beforeCall s actionId)"
      by (auto simp: forwardSite_def split: if_splits)
    then have e: "executed (pendingActions m actionId)" by (simp add: beforeCall_def)
    have "entered (duringCall kec now m sc k)"
      using handover_entered [OF h] by (rule duringCall_entered)
    then show ?thesis using e by (simp add: entered_execute_rejected)
  qed
  ultimately show ?thesis by blast
qed

text \<open>The strategy contract calls back \<open>receive\<close> and then \<open>executeAction\<close>.\<close>

theorem executeAction_marks_before_call_witness:
  "executeAction approvedStrat 1000 stratId probe
     = afterCall stratId (forwardCall (beforeCall approvedStrat stratId) strategy 5 probe)
   \<and> handover approvedStrat stranger 1000 (Call_executeAction stratId)
        = Some ((beforeCall approvedStrat stratId)\<lparr>nativeBalance := 95\<rparr>)
   \<and> executed (pendingActions ((beforeCall approvedStrat stratId)\<lparr>nativeBalance := 95\<rparr>) stratId)
   \<and> executeAction
        (duringCall digest 1000 ((beforeCall approvedStrat stratId)\<lparr>nativeBalance := 95\<rparr>)
           [(strategy, Call_receive 1), (strategy, Call_executeAction stratId)] 1)
        1000 stratId noCallee
      = Inl ReentrancyGuardReentrantCall"
  using executeAction_marks_before_call [of approvedStrat stratId 1000 probe stranger
      "(beforeCall approvedStrat stratId)\<lparr>nativeBalance := 95\<rparr>" digest
      "[(strategy, Call_receive 1), (strategy, Call_executeAction stratId)]" 1 1000 stratId noCallee strategy]
    approvedStrat_checks approvedStrat_handover approvedStrat_action
  by (simp add: executeChecks_None_iff)

text \<open>The claim as stated fails: the code of the whitelisted strategy runs with the ledger
  still at 100 (it succeeds only if it finds it so, and it does), the debit to 95 comes
  after it; and the error of an execution made from inside the forwarded call is that of
  the guard.\<close>

theorem debit_after_call_counterexample:
  "executeChecks approvedStrat 1000 stratId = None
   \<and> target (pendingActions approvedStrat stratId) = strategy
   \<and> val (pendingActions approvedStrat stratId) = 5
   \<and> handover approvedStrat stranger 1000 (Call_executeAction stratId)
        = Some ((beforeCall approvedStrat stratId)\<lparr>nativeBalance := 95\<rparr>)
   \<and> assetBalances ((beforeCall approvedStrat stratId)\<lparr>nativeBalance := 95\<rparr>) 0 = 100
   \<and> \<not> isl (executeAction approvedStrat 1000 stratId probe)
   \<and> assetBalances (projr (executeAction approvedStrat 1000 stratId probe)) 0 = 95
   \<and> invoke digest ((beforeCall approvedStrat stratId)\<lparr>nativeBalance := 95\<rparr>) strategy 1000 noCallee
        (Call_executeAction stratId)
      = Inl ReentrancyGuardReentrantCall"
  by (simp add: handover_def forwardSite_def probe_def approvedStrat_def stratId_def funded_def
      run_defs vault_defs scenario_defs)

section \<open>Allocation percentages\<close>

lemma totalBalanceLoop_Inr:
  "totalBalanceLoop bal as acc = Inr t \<Longrightarrow> unat t = unat acc + sum_list (map (\<lambda>a. unat (bal a)) as)"
proof (induction as arbitrary: acc)
  case Nil
  then show ?case by simp
next
  case (Cons a as)
  from Cons.prems obtain t' where
    c: "checkedAdd acc (bal a) = Inr t'" and r: "totalBalanceLoop bal as t' = Inr t"
    by (auto split: sum.splits)
  show ?case
    using Cons.IH [OF r] checkedAdd_Inr(2) [OF c] by simp
qed

lemma totalBalanceLoop_no_div: "totalBalanceLoop bal as acc \<noteq> Inl PanicDivisionByZero"
  by (induction as arbitrary: acc) (auto simp: checkedAdd_def split: sum.splits)

lemma percentageOf_Inr:
  assumes "percentageOf b t = Inr p"
  shows "unat p = (if 0 < unat t then unat b * 10000 div unat t else 0)"
proof (cases "0 < t")
  case True
  with assms obtain product where
    m: "checkedMul b 10000 = Inr product" and d: "checkedDiv product t = Inr p"
    by (auto simp: percentageOf_def split: sum.splits)
  have "0 < unat t" using True by (simp add: word_less_nat_alt)
  then show ?thesis
    using checkedMul_Inr(2) [OF m] checkedDiv_Inr(2) [OF d] by simp
next
  case False
  then have "t = 0" by (simp add: word_gt_0)
  then show ?thesis using assms by (simp add: percentageOf_def)
qed

lemma percentageOf_no_div: "percentageOf b t \<noteq> Inl PanicDivisionByZero"
  by (auto simp: percentageOf_def checkedMul_def checkedDiv_def split: sum.splits if_splits)

lemma itemsLoop_Inr:
  "itemsLoop bal t as = Inr items \<Longrightarrow>
     map (\<lambda>i. unat (percentage i)) items
       = map (\<lambda>a. if 0 < unat t then unat (bal a) * 10000 div unat t else 0) as"
proof (induction as arbitrary: items)
  case Nil
  then show ?case by simp
next
  case (Cons a as)
  from Cons.prems obtain p rest where
    p: "percentageOf (bal a) t = Inr p" and r: "itemsLoop bal t as = Inr rest"
    and i: "items = \<lparr>asset = a, amount = bal a, percentage = p, valueUSD = 0\<rparr> # rest"
    by (auto split: sum.splits)
  show ?case
    using Cons.IH [OF r] percentageOf_Inr [OF p] i by simp
qed

lemma itemsLoop_no_div: "itemsLoop bal t as \<noteq> Inl PanicDivisionByZero"
  by (induction as) (auto simp: percentageOf_no_div split: sum.splits)

lemma floor_sum_lower:
  "sum_list (map (\<lambda>x. x * 10000 div T) xs) * T \<le> sum_list xs * (10000 :: nat)"
proof (induction xs)
  case Nil
  then show ?case by simp
next
  case (Cons x xs)
  have a: "x * 10000 div T * T \<le> x * 10000" by simp
  have "sum_list (map (\<lambda>x. x * 10000 div T) (x # xs)) * T
          = x * 10000 div T * T + sum_list (map (\<lambda>x. x * 10000 div T) xs) * T"
    by (simp add: add_mult_distrib)
  also have "\<dots> \<le> x * 10000 + sum_list xs * 10000"
    using a Cons.IH by (rule add_mono)
  also have "\<dots> = sum_list (x # xs) * 10000"
    by (simp add: add_mult_distrib)
  finally show ?case .
qed

lemma floor_sum_upper:
  assumes "0 < T"
  shows "sum_list xs * (10000 :: nat) + length xs
           \<le> (sum_list (map (\<lambda>x. x * 10000 div T) xs) + length xs) * T"
proof (induction xs)
  case Nil
  then show ?case by simp
next
  case (Cons x xs)
  have "x * 10000 < T + x * 10000 div T * T"
    using assms by (rule dividend_less_div_times)
  then have a: "x * 10000 + 1 \<le> x * 10000 div T * T + T" by simp
  have "sum_list (x # xs) * 10000 + length (x # xs)
          = (x * 10000 + 1) + (sum_list xs * 10000 + length xs)"
    by (simp add: add_mult_distrib)
  also have "\<dots> \<le> (x * 10000 div T * T + T)
                   + (sum_list (map (\<lambda>x. x * 10000 div T) xs) + length xs) * T"
    using a Cons.IH by (rule add_mono)
  also have "\<dots> = (sum_list (map (\<lambda>x. x * 10000 div T) (x # xs)) + length (x # xs)) * T"
    by (simp add: add_mult_distrib)
  finally show ?case .
qed

lemma bounds_from_products:
  fixes S T n :: nat
  assumes "0 < T" and "S * T \<le> T * 10000" and "T * 10000 + n \<le> (S + n) * T" and "0 < n"
  shows "S \<le> 10000 \<and> 10000 < S + n"
proof
  have "S * T \<le> 10000 * T" using assms(2) by (simp add: mult.commute)
  then show "S \<le> 10000" using assms(1) by simp
  have "T * 10000 < T * 10000 + n" using assms(4) by simp
  also have "\<dots> \<le> (S + n) * T" by (rule assms(3))
  finally have "10000 * T < (S + n) * T" by (simp only: mult.commute [of T 10000])
  then show "10000 < S + n" by (simp only: mult_less_cancel2)
qed

text \<open>
  C7 (as amended). \<open>getAllocation\<close> never divides by zero. Whenever it returns: if the sum
  of the registered assets' balances is positive, the percentages sum to at most 10000
  basis points and to more than 10000 minus the number of entries (each entry is rounded
  down); if that sum is 0, every percentage is 0.
\<close>

theorem getAllocation_percentages:
  "getAllocation s \<noteq> Inl PanicDivisionByZero
   \<and> (getAllocation s = Inr items \<longrightarrow>
        (0 < sum_list (map (\<lambda>a. unat (assetBalances s a)) (supportedAssets s)) \<longrightarrow>
            sum_list (map (\<lambda>i. unat (percentage i)) items) \<le> 10000
          \<and> 10000 < sum_list (map (\<lambda>i. unat (percentage i)) items) + length items)
      \<and> (sum_list (map (\<lambda>a. unat (assetBalances s a)) (supportedAssets s)) = 0 \<longrightarrow>
            (\<forall>i \<in> set items. percentage i = 0)))"
proof -
  let ?bal = "assetBalances s"
  let ?as = "supportedAssets s"
  let ?T = "sum_list (map (\<lambda>a. unat (?bal a)) ?as)"
  have nodiv: "getAllocation s \<noteq> Inl PanicDivisionByZero"
    using totalBalanceLoop_no_div [of ?bal ?as 0] itemsLoop_no_div [of ?bal _ ?as]
    by (auto simp: getAllocation_def split: sum.splits)
  have main: "(0 < ?T \<longrightarrow> sum_list (map (\<lambda>i. unat (percentage i)) items) \<le> 10000
                 \<and> 10000 < sum_list (map (\<lambda>i. unat (percentage i)) items) + length items)
            \<and> (?T = 0 \<longrightarrow> (\<forall>i \<in> set items. percentage i = 0))"
    if g: "getAllocation s = Inr items"
  proof -
    from g obtain t where
      t: "totalBalanceLoop ?bal ?as 0 = Inr t" and i: "itemsLoop ?bal t ?as = Inr items"
      by (auto simp: getAllocation_def split: sum.splits)
    have T: "unat t = ?T" using totalBalanceLoop_Inr [OF t] by simp
    have pcs: "map (\<lambda>i. unat (percentage i)) items
                 = map (\<lambda>a. if 0 < ?T then unat (?bal a) * 10000 div ?T else 0) ?as"
      using itemsLoop_Inr [OF i] T by simp
    have len: "length items = length ?as"
      using arg_cong [OF pcs, of length] by simp
    have zero: "\<forall>i \<in> set items. percentage i = 0" if z: "?T = 0"
    proof
      fix i assume "i \<in> set items"
      then have "unat (percentage i) \<in> set (map (\<lambda>i. unat (percentage i)) items)" by simp
      then have "unat (percentage i) = 0" using pcs z by auto
      then show "percentage i = 0" by (simp add: unat_eq_0)
    qed
    have pos: "sum_list (map (\<lambda>i. unat (percentage i)) items) \<le> 10000
             \<and> 10000 < sum_list (map (\<lambda>i. unat (percentage i)) items) + length items" if p: "0 < ?T"
    proof -
      let ?xs = "map (\<lambda>a. unat (?bal a)) ?as"
      let ?S = "sum_list (map (\<lambda>x. x * 10000 div ?T) ?xs)"
      have S: "sum_list (map (\<lambda>i. unat (percentage i)) items) = ?S"
        using pcs p by (simp add: comp_def)
      have A: "?S * ?T \<le> ?T * 10000" by (rule floor_sum_lower)
      have B: "?T * 10000 + length ?xs \<le> (?S + length ?xs) * ?T"
        using p by (rule floor_sum_upper)
      have ne: "0 < length ?xs" using p by (cases ?as) auto
      from bounds_from_products [OF p A B ne] show ?thesis using S len by simp
    qed
    show ?thesis using zero pos by blast
  qed
  show ?thesis using nodiv main by blast
qed

lemma threeAssets_allocation:
  "getAllocation threeAssets =
     Inr [\<lparr>asset = 0, amount = 1, percentage = 3333, valueUSD = 0\<rparr>,
          \<lparr>asset = 0xA1, amount = 1, percentage = 3333, valueUSD = 0\<rparr>,
          \<lparr>asset = 0xA2, amount = 1, percentage = 3333, valueUSD = 0\<rparr>]"
  by (simp add: threeAssets_def getAllocation_def percentageOf_def run_defs vault_defs scenario_defs)

lemma emptyVault_allocation:
  "getAllocation (deployed [owner1, owner2, owner3] 2) =
     Inr [\<lparr>asset = 0, amount = 0, percentage = 0, valueUSD = 0\<rparr>]"
  by (simp add: getAllocation_def percentageOf_def run_defs vault_defs scenario_defs)

theorem getAllocation_percentages_witness:
  "getAllocation threeAssets =
     Inr [\<lparr>asset = 0, amount = 1, percentage = 3333, valueUSD = 0\<rparr>,
          \<lparr>asset = 0xA1, amount = 1, percentage = 3333, valueUSD = 0\<rparr>,
          \<lparr>asset = 0xA2, amount = 1, percentage = 3333, valueUSD = 0\<rparr>]
   \<and> sum_list (map (\<lambda>a. unat (assetBalances threeAssets a)) (supportedAssets threeAssets)) = 3
   \<and> (3333 + 3333 + 3333 :: nat) \<le> 10000 \<and> (10000 :: nat) < 3333 + 3333 + 3333 + 3
   \<and> getAllocation threeAssets \<noteq> Inl PanicDivisionByZero
   \<and> getAllocation (deployed [owner1, owner2, owner3] 2)
        = Inr [\<lparr>asset = 0, amount = 0, percentage = 0, valueUSD = 0\<rparr>]
   \<and> sum_list (map (\<lambda>a. unat (assetBalances (deployed [owner1, owner2, owner3] 2) a))
        (supportedAssets (deployed [owner1, owner2, owner3] 2))) = 0"
proof -
  have t: "sum_list (map (\<lambda>a. unat (assetBalances threeAssets a)) (supportedAssets threeAssets)) = 3"
    by (simp add: threeAssets_def run_defs vault_defs scenario_defs)
  have z: "sum_list (map (\<lambda>a. unat (assetBalances (deployed [owner1, owner2, owner3] 2) a))
        (supportedAssets (deployed [owner1, owner2, owner3] 2))) = 0"
    by (simp add: run_defs vault_defs scenario_defs)
  show ?thesis
    using getAllocation_percentages [of threeAssets
        "[\<lparr>asset = 0, amount = 1, percentage = 3333, valueUSD = 0\<rparr>,
          \<lparr>asset = 0xA1, amount = 1, percentage = 3333, valueUSD = 0\<rparr>,
          \<lparr>asset = 0xA2, amount = 1, percentage = 3333, valueUSD = 0\<rparr>]"]
      getAllocation_percentages [of "deployed [owner1, owner2, owner3] 2"
        "[\<lparr>asset = 0, amount = 0, percentage = 0, valueUSD = 0\<rparr>]"]
      threeAssets_allocation emptyVault_allocation t z
    by simp
qed

text \<open>The claim as stated fails: three assets with a balance of 1 each get 3333 basis
  points each, 9999 in all; and with \<open>2 ^ 255\<close> units of a token in the ledger the call
  does not return, the product \<^verbatim>\<open>bal * 10_000\<close> overflows.\<close>

theorem allocation_sum_counterexample:
  "0 < sum_list (map (\<lambda>a. unat (assetBalances threeAssets a)) (supportedAssets threeAssets))
   \<and> map percentage (projr (getAllocation threeAssets)) = [3333, 3333, 3333]
   \<and> sum_list (map (\<lambda>i. unat (percentage i)) (projr (getAllocation threeAssets))) = 9999
   \<and> getAllocation hugeToken = Inl PanicOverflow"
  by (simp add: threeAssets_def hugeToken_def getAllocation_def percentageOf_def run_defs
      vault_defs scenario_defs)

end
